theory Spec2Isabelle
  imports Complex_Main "HOL-Library.List_Lexorder" "HOL-Library.Product_Lexorder"
begin

section \<open>Floating-point cells\<close>

text \<open>
  A pandas/numpy float64 cell. Finite values are rationals and arithmetic on them is exact
  (binary rounding and the sign of zero are not modelled); the three special values are
  kept, because numpy division by zero does not raise: it yields \<open>inf\<close>, \<open>-inf\<close> or \<open>nan\<close>.
  \<open>NaN\<close> is also what pandas stores in a missing cell of a float column.
\<close>

datatype fval = Fin rat | PInf | NInf | NaN

fun fneg :: "fval \<Rightarrow> fval" where
  "fneg (Fin a) = Fin (- a)"
| "fneg PInf = NInf"
| "fneg NInf = PInf"
| "fneg NaN = NaN"

fun fadd :: "fval \<Rightarrow> fval \<Rightarrow> fval" where
  "fadd (Fin a) (Fin b) = Fin (a + b)"
| "fadd NaN _ = NaN"
| "fadd _ NaN = NaN"
| "fadd PInf NInf = NaN"
| "fadd NInf PInf = NaN"
| "fadd PInf _ = PInf"
| "fadd NInf _ = NInf"
| "fadd _ PInf = PInf"
| "fadd _ NInf = NInf"

definition fsub :: "fval \<Rightarrow> fval \<Rightarrow> fval" where
  "fsub x y = fadd x (fneg y)"

text \<open>The sign of a cell: 1, 0, -1; \<open>None\<close> for \<open>nan\<close>.\<close>

fun fsign :: "fval \<Rightarrow> int option" where
  "fsign (Fin a) = Some (if 0 < a then 1 else if a < 0 then - 1 else 0)"
| "fsign PInf = Some 1"
| "fsign NInf = Some (- 1)"
| "fsign NaN = None"

definition inf_of_sign :: "int \<Rightarrow> fval" where
  "inf_of_sign s = (if 0 < s then PInf else if s < 0 then NInf else NaN)"

fun fmul :: "fval \<Rightarrow> fval \<Rightarrow> fval" where
  "fmul (Fin a) (Fin b) = Fin (a * b)"
| "fmul x y = (case (fsign x, fsign y) of
      (Some s, Some t) \<Rightarrow> inf_of_sign (s * t)
    | _ \<Rightarrow> NaN)"

fun fdiv :: "fval \<Rightarrow> fval \<Rightarrow> fval" where
  "fdiv (Fin a) (Fin b) =
     (if b = 0 then (if 0 < a then PInf else if a < 0 then NInf else NaN) else Fin (a / b))"
| "fdiv NaN _ = NaN"
| "fdiv _ NaN = NaN"
| "fdiv (Fin a) _ = Fin 0"
| "fdiv PInf (Fin b) = (if b < 0 then NInf else PInf)"
| "fdiv NInf (Fin b) = (if b < 0 then PInf else NInf)"
| "fdiv PInf _ = NaN"
| "fdiv NInf _ = NaN"

text \<open>The comparison \<open>x > 0\<close> on floats: false for \<open>nan\<close>.\<close>

fun fpos :: "fval \<Rightarrow> bool" where
  "fpos (Fin a) = (0 < a)"
| "fpos PInf = True"
| "fpos _ = False"

definition notna :: "fval \<Rightarrow> bool" where
  "notna v = (v \<noteq> NaN)"

text \<open>The expression \<open>((price - start_price) / start_price) * 100\<close> of all three aligners.\<close>

definition pct_return :: "fval \<Rightarrow> fval \<Rightarrow> fval" where
  "pct_return price start_price = fmul (fdiv (fsub price start_price) start_price) (Fin 100)"

text \<open>
  Rounding to the nearest integer, ties to even, and \<open>round(x, 2)\<close> built on it: the value
  times 100, rounded to an integer, over 100, as numpy does it, but on the exact rational;
  the binary rounding of the product and of the quotient is not modelled.
\<close>

definition rint :: "rat \<Rightarrow> int" where
  "rint x = (let f = \<lfloor>x\<rfloor>; d = x - of_int f in
     if d < 1 / 2 then f else if 1 / 2 < d then f + 1 else if even f then f else f + 1)"

fun round2 :: "fval \<Rightarrow> fval" where
  "round2 (Fin a) = Fin (of_int (rint (a * 100)) / 100)"
| "round2 x = x"

section \<open>Strings\<close>

text \<open>
  A Python \<open>str\<close> is a sequence of Unicode code points. With the lexicographic order on
  lists, \<open><\<close> on \<open>pystr\<close> is Python's string comparison.
\<close>

type_synonym pystr = "nat list"

definition of_ascii :: "string \<Rightarrow> pystr" where
  "of_ascii s = map of_char s"

text \<open>The code points for which \<open>str.isspace\<close> holds, and \<open>str.strip()\<close>.\<close>

definition isspace :: "nat \<Rightarrow> bool" where
  "isspace c = (c \<in> set [9, 10, 11, 12, 13, 28, 29, 30, 31, 32, 133, 160, 5760,
     8192, 8193, 8194, 8195, 8196, 8197, 8198, 8199, 8200, 8201, 8202,
     8232, 8233, 8239, 8287, 12288])"

definition strip :: "pystr \<Rightarrow> pystr" where
  "strip s = rev (dropWhile isspace (rev (dropWhile isspace s)))"

definition two_digits :: "nat \<Rightarrow> pystr" where
  "two_digits n = [48 + n div 10 mod 10, 48 + n mod 10]"

definition four_digits :: "nat \<Rightarrow> pystr" where
  "four_digits n = [48 + n div 1000 mod 10, 48 + n div 100 mod 10, 48 + n div 10 mod 10, 48 + n mod 10]"

fun decimal :: "nat \<Rightarrow> pystr" where
  "decimal n = (if n < 10 then [48 + n] else decimal (n div 10) @ [48 + n mod 10])"

declare decimal.simps [simp del]

section \<open>Dates and times\<close>

text \<open>
  A calendar date is (year, month, day) and a naive timestamp is (date, hour, minute);
  the lexicographic order on tuples is the chronological order. Seconds are dropped: the
  source only reads \<open>%H:%M\<close> and only builds timestamps on whole minutes.
\<close>

type_synonym date = "nat \<times> nat \<times> nat"
type_synonym datetime = "date \<times> nat \<times> nat"

definition year :: "date \<Rightarrow> nat" where "year d = fst d"
definition month :: "date \<Rightarrow> nat" where "month d = fst (snd d)"
definition day :: "date \<Rightarrow> nat" where "day d = snd (snd d)"

definition date_of :: "datetime \<Rightarrow> date" where "date_of t = fst t"
definition hour :: "datetime \<Rightarrow> nat" where "hour t = fst (snd t)"
definition minute :: "datetime \<Rightarrow> nat" where "minute t = snd (snd t)"

text \<open>Proleptic Gregorian day numbers, as \<open>date.toordinal\<close> and \<open>date.fromordinal\<close>.\<close>

definition toordinal :: "date \<Rightarrow> int" where
  "toordinal d = (let m = int (month d);
       y = (if m \<le> 2 then int (year d) - 1 else int (year d));
       era = y div 400;
       yoe = y - era * 400;
       mp = (m + 9) mod 12;
       doy = (153 * mp + 2) div 5 + int (day d) - 1;
       doe = yoe * 365 + yoe div 4 - yoe div 100 + doy
     in era * 146097 + doe - 305)"

definition fromordinal :: "int \<Rightarrow> date" where
  "fromordinal n = (let z = n + 305;
       era = z div 146097;
       doe = z - era * 146097;
       yoe = (doe - doe div 1460 + doe div 36524 - doe div 146096) div 365;
       doy = doe - (365 * yoe + yoe div 4 - yoe div 100);
       mp = (5 * doy + 2) div 153;
       d = doy - (153 * mp + 2) div 5 + 1;
       m = (if mp < 10 then mp + 3 else mp - 9);
       y = yoe + era * 400 + (if m \<le> 2 then 1 else 0)
     in (nat y, nat m, nat d))"

definition add_days :: "date \<Rightarrow> int \<Rightarrow> date" where
  "add_days d k = fromordinal (toordinal d + k)"

text \<open>\<open>weekday()\<close>: Monday is 0.\<close>

definition weekday :: "date \<Rightarrow> nat" where
  "weekday d = nat ((toordinal d + 6) mod 7)"

definition strftime_HM :: "datetime \<Rightarrow> pystr" where
  "strftime_HM t = two_digits (hour t) @ [58] @ two_digits (minute t)"

definition strftime_md :: "date \<Rightarrow> pystr" where
  "strftime_md d = two_digits (month d) @ [47] @ two_digits (day d)"

definition strftime_Ymd :: "date \<Rightarrow> pystr" where
  "strftime_Ymd d = four_digits (year d) @ [45] @ two_digits (month d) @ [45] @ two_digits (day d)"

section \<open>The market data boundary\<close>

text \<open>
  One daily bar as yfinance returns it; the index entry is the bar's trading day. Prices are
  finite. The volume is an exact natural number: a row read with \<open>iloc\<close> carries it as a
  float64, which is the same number below \<open>2^53\<close>.
\<close>

record bar =
  bdate :: date
  Open :: rat
  High :: rat
  Low :: rat
  Close :: rat
  Volume :: nat

datatype exn = FetchError pystr | IndexError | ValueError

text \<open>
  The external collaborators, as functions of their arguments: the three ways the source
  calls \<open>Ticker.history\<close>, \<open>Ticker.info\<close> read at key \<open>longName\<close> (\<open>None\<close> when the key is
  absent), and the optional \<open>twstock\<close> module (\<open>None\<close> when its import failed), reduced to
  the name it holds for a code. Every call may raise.
\<close>

record env =
  history_period5d :: "pystr \<Rightarrow> exn + bar list"
  history_from :: "pystr \<Rightarrow> date \<Rightarrow> exn + bar list"
  history_range :: "pystr \<Rightarrow> date \<Rightarrow> date \<Rightarrow> exn + bar list"
  info_longName :: "pystr \<Rightarrow> exn + pystr option"
  twstock :: "(pystr \<Rightarrow> pystr option) option"

definition MANUAL_STOCK_NAMES :: "(pystr \<times> pystr) list" where
  "MANUAL_STOCK_NAMES = [
   (of_ascii ''2330'', [21488, 31309, 38651]),
   (of_ascii ''2317'', [40251, 28023]),
   (of_ascii ''2454'', [32879, 30332, 31185]),
   (of_ascii ''2303'', [32879, 38651]),
   (of_ascii ''2308'', [21488, 36948, 38651]),
   (of_ascii ''2382'', [24291, 36948]),
   (of_ascii ''2357'', [33775, 30889]),
   (of_ascii ''3231'', [32239, 21109]),
   (of_ascii ''3711'', [26085, 26376, 20809, 25237, 25511]),
   (of_ascii ''3034'', [32879, 35424]),
   (of_ascii ''2379'', [29790, 26161]),
   (of_ascii ''3008'', [22823, 31435, 20809]),
   (of_ascii ''6669'', [32239, 31310]),
   (of_ascii ''2345'', [26234, 37030]),
   (of_ascii ''2412'', [20013, 33775, 38651]),
   (of_ascii ''3045'', [21488, 28771, 22823]),
   (of_ascii ''4904'', [36960, 20659]),
   (of_ascii ''2881'', [23500, 37030, 37329]),
   (of_ascii ''2882'', [22283, 27888, 37329]),
   (of_ascii ''2886'', [20806, 35920, 37329]),
   (of_ascii ''2891'', [20013, 20449, 37329]),
   (of_ascii ''2884'', [29577, 23665, 37329]),
   (of_ascii ''2892'', [31532, 19968, 37329]),
   (of_ascii ''2880'', [33775, 21335, 37329]),
   (of_ascii ''2885'', [20803, 22823, 37329]),
   (of_ascii ''2883'', [38283, 30332, 37329]),
   (of_ascii ''2890'', [27704, 35920, 37329]),
   (of_ascii ''2887'', [21488, 26032, 37329]),
   (of_ascii ''5880'', [21512, 24235, 37329]),
   (of_ascii ''2603'', [38263, 27054]),
   (of_ascii ''2609'', [38525, 26126]),
   (of_ascii ''2615'', [33836, 28023]),
   (of_ascii ''2618'', [38263, 27054, 33322]),
   (of_ascii ''2610'', [33775, 33322]),
   (of_ascii ''1301'', [21488, 22609]),
   (of_ascii ''1303'', [21335, 20126]),
   (of_ascii ''1326'', [21488, 21270]),
   (of_ascii ''1304'', [21488, 32858]),
   (of_ascii ''2002'', [20013, 37628]),
   (of_ascii ''1101'', [21488, 27877]),
   (of_ascii ''1102'', [20126, 27877]),
   (of_ascii ''1605'', [33775, 26032]),
   (of_ascii ''0050'', [20803, 22823, 21488, 28771, 53, 48]),
   (of_ascii ''0056'', [20803, 22823, 39640, 32929, 24687]),
   (of_ascii ''00878'', [22283, 27888, 27704, 32396, 39640, 32929, 24687]),
   (of_ascii ''00929'', [24489, 33775, 21488, 28771, 31185, 25216, 20778, 24687]),
   (of_ascii ''00940'', [20803, 22823, 21488, 28771, 20729, 20540, 39640, 24687]),
   (of_ascii ''00919'', [32676, 30410, 21488, 28771, 31934, 36984, 39640, 24687]),
   (of_ascii ''006208'', [23500, 37030, 21488, 53, 48]),
   (of_ascii ''00713'', [20803, 22823, 21488, 28771, 39640, 24687, 20302, 27874]),
   (of_ascii ''00939'', [32113, 19968, 21488, 28771, 39640, 24687, 21205, 33021])]"

text \<open>
  The name logic both \<open>get_stock_data\<close> and \<open>get_history_by_date\<close> spell out: start from
  \<open>info.get('longName', code)\<close>, then the manual table, else \<open>twstock\<close> when the module is
  loaded and knows the code.
\<close>

definition resolve_name :: "env \<Rightarrow> pystr \<Rightarrow> pystr option \<Rightarrow> pystr" where
  "resolve_name e code longName =
     (let name = (case longName of None \<Rightarrow> code | Some n \<Rightarrow> n) in
      case map_of MANUAL_STOCK_NAMES code of
        Some n \<Rightarrow> n
      | None \<Rightarrow> (case twstock e of
                  None \<Rightarrow> name
                | Some codes \<Rightarrow> (case codes code of Some n \<Rightarrow> n | None \<Rightarrow> name)))"

definition ticker_symbol :: "pystr \<Rightarrow> pystr" where
  "ticker_symbol code = code @ of_ascii ''.TW''"

text \<open>
  What the page shows through \<open>st.warning\<close> and \<open>st.error\<close>, in order. The page is global
  state of the program, so every entry point takes it and returns it. The message texts are
  kept as constructors; the progress bar and the status line are presentation and are left
  out.
\<close>

datatype message = Warning_no_data pystr | Error_fetch pystr exn

type_synonym ui = "message list"

type_synonym ticker = "pystr \<times> pystr \<times> pystr"

section \<open>Today's table\<close>

record stock_row =
  s_code :: pystr
  s_name :: pystr
  s_date :: pystr
  s_close :: fval
  s_change :: fval
  s_pct_change :: fval
  s_volume :: nat

text \<open>
  The body of the \<open>try\<close> block for one code: \<open>Inl\<close> when a call raised, \<open>Inr None\<close> when the
  history is empty, otherwise the row and the valid ticker.
\<close>

definition stock_try :: "env \<Rightarrow> pystr \<Rightarrow> exn + (stock_row \<times> ticker) option" where
  "stock_try e code =
     (case history_period5d e (ticker_symbol code) of
        Inl x \<Rightarrow> Inl x
      | Inr hist \<Rightarrow>
         if 0 < length hist then
           (let latest = last hist;
                prev = (if 1 < length hist then hist ! (length hist - 2) else latest);
                price = Fin (Close latest);
                prev_close = Fin (Close prev);
                change = fsub price prev_close;
                pct_change = fmul (fdiv change prev_close) (Fin 100)
            in case info_longName e (ticker_symbol code) of
                 Inl x \<Rightarrow> Inl x
               | Inr lname \<Rightarrow>
                  (let name = resolve_name e code lname in
                   Inr (Some (\<lparr> s_code = code,
                                 s_name = name,
                                 s_date = strftime_Ymd (bdate latest),
                                 s_close = round2 price,
                                 s_change = round2 change,
                                 s_pct_change = round2 pct_change,
                                 s_volume = Volume latest \<rparr>,
                              (code, ticker_symbol code, name)))))
         else Inr None)"

record fetch_state =
  data_list :: "stock_row list"
  valid_tickers :: "ticker list"
  page :: ui

definition stock_step :: "env \<Rightarrow> pystr \<Rightarrow> fetch_state \<Rightarrow> fetch_state" where
  "stock_step e raw st =
     (let code = strip raw in
      if code = [] then st
      else (case stock_try e code of
              Inr (Some (r, t)) \<Rightarrow>
                st\<lparr> data_list := data_list st @ [r], valid_tickers := valid_tickers st @ [t] \<rparr>
            | Inr None \<Rightarrow> st\<lparr> page := page st @ [Warning_no_data code] \<rparr>
            | Inl x \<Rightarrow> st\<lparr> page := page st @ [Error_fetch code x] \<rparr>))"

definition get_stock_data :: "env \<Rightarrow> pystr list \<Rightarrow> ui \<Rightarrow> fetch_state" where
  "get_stock_data e stock_list u =
     fold (stock_step e) stock_list \<lparr> data_list = [], valid_tickers = [], page = u \<rparr>"

section \<open>Single-date lookup\<close>

record history_row =
  h_code :: pystr
  h_name :: pystr
  h_date :: pystr
  h_open :: fval
  h_high :: fval
  h_low :: fval
  h_close :: fval
  h_volume :: nat

text \<open>
  The body of the \<open>try\<close> block for one code: \<open>Inl\<close> when a call raised, \<open>Inr None\<close> when the
  day has no bar, \<open>Inr (Some row)\<close> otherwise.
\<close>

definition history_try :: "env \<Rightarrow> date \<Rightarrow> pystr \<Rightarrow> exn + history_row option" where
  "history_try e target_date code =
     (case history_range e (ticker_symbol code) target_date (add_days target_date 1) of
        Inl x \<Rightarrow> Inl x
      | Inr hist \<Rightarrow>
         (case hist of
            [] \<Rightarrow> Inr None
          | row # _ \<Rightarrow>
             (case info_longName e (ticker_symbol code) of
                Inl x \<Rightarrow> Inl x
              | Inr lname \<Rightarrow> Inr (Some \<lparr>
                  h_code = code,
                  h_name = resolve_name e code lname,
                  h_date = strftime_Ymd target_date @ of_ascii '' 13:30'',
                  h_open = round2 (Fin (Open row)),
                  h_high = round2 (Fin (High row)),
                  h_low = round2 (Fin (Low row)),
                  h_close = round2 (Fin (Close row)),
                  h_volume = Volume row \<rparr>))))"

text \<open>One iteration of the loop: blank codes are skipped, an exception is swallowed.\<close>

definition history_step :: "env \<Rightarrow> date \<Rightarrow> pystr \<Rightarrow> history_row list \<Rightarrow> history_row list" where
  "history_step e target_date raw rows =
     (let code = strip raw in
      if code = [] then rows
      else (case history_try e target_date code of
              Inr (Some r) \<Rightarrow> rows @ [r]
            | Inr None \<Rightarrow> rows
            | Inl x \<Rightarrow> rows))"

definition history_rows :: "env \<Rightarrow> date \<Rightarrow> pystr list \<Rightarrow> history_row list" where
  "history_rows e target_date stock_list = fold (history_step e target_date) stock_list []"

text \<open>\<open>now\<close> is \<open>datetime.now(tw)\<close>, the wall clock of Asia/Taipei, passed in.\<close>

definition get_history_by_date ::
  "env \<Rightarrow> datetime \<Rightarrow> pystr list \<Rightarrow> date \<Rightarrow> ui \<Rightarrow> history_row list \<times> ui" where
  "get_history_by_date e now stock_list target_date u =
     (if target_date = date_of now \<and> strftime_HM now < of_ascii ''13:30'' then ([], u)
      else if date_of now < target_date then ([], u)
      else (history_rows e target_date stock_list, u))"

section \<open>Frames\<close>

text \<open>
  A pandas Series is a list of (label, value) pairs; a DataFrame is its index and its named
  columns, each as long as the index. Rows are moved by position, as pandas does
  (\<open>take\<close>); sorting is stable.
\<close>

type_synonym 'k series = "('k \<times> fval) list"

record 'k frame =
  index :: "'k list"
  columns :: "(pystr \<times> fval list) list"

definition empty_frame :: "'k frame" where
  "empty_frame = \<lparr> index = [], columns = [] \<rparr>"

definition frame_empty :: "'k frame \<Rightarrow> bool" where
  "frame_empty t = (index t = [] \<or> columns t = [])"

definition frame_of_series :: "pystr \<Rightarrow> 'k series \<Rightarrow> 'k frame" where
  "frame_of_series name s = \<lparr> index = map fst s, columns = [(name, map snd s)] \<rparr>"

text \<open>Values of a labelled column at new labels; a label it does not have gives \<open>NaN\<close>.\<close>

definition reindex :: "'k list \<Rightarrow> fval list \<Rightarrow> 'k list \<Rightarrow> fval list" where
  "reindex idx vals new_idx =
     map (\<lambda>k. case map_of (zip idx vals) k of Some v \<Rightarrow> v | None \<Rightarrow> NaN) new_idx"

text \<open>The cell of a labelled column at a label, as \<open>series.get(k, nan)\<close> reads it.\<close>

definition cell_at :: "'k list \<Rightarrow> fval list \<Rightarrow> 'k \<Rightarrow> fval" where
  "cell_at idx vals k = (case map_of (zip idx vals) k of Some v \<Rightarrow> v | None \<Rightarrow> NaN)"

text \<open>
  \<open>DataFrame.join(series, how='outer')\<close> for indexes without repeated labels: the sorted
  union of the labels; a column name that is already there raises \<open>ValueError\<close>.
\<close>

definition join_outer :: "('k::linorder) frame \<Rightarrow> pystr \<Rightarrow> 'k series \<Rightarrow> exn + 'k frame" where
  "join_outer t name s =
     (if name \<in> set (map fst (columns t)) then Inl ValueError
      else (let idx = sort (remdups (index t @ map fst s)) in
            Inr \<lparr> index = idx,
                  columns = map (\<lambda>(n, c). (n, reindex (index t) c idx)) (columns t)
                            @ [(name, reindex (map fst s) (map snd s) idx)] \<rparr>))"

definition take_rows :: "nat list \<Rightarrow> 'k frame \<Rightarrow> 'k frame" where
  "take_rows ps t = \<lparr> index = map (nth (index t)) ps,
                      columns = map (\<lambda>(n, c). (n, map (nth c) ps)) (columns t) \<rparr>"

definition sort_index :: "('k::linorder) frame \<Rightarrow> 'k frame" where
  "sort_index t = take_rows (sort_key (nth (index t)) [0..<length (index t)]) t"

definition relabel :: "('k \<Rightarrow> pystr) \<Rightarrow> 'k frame \<Rightarrow> pystr frame" where
  "relabel f t = \<lparr> index = map f (index t), columns = columns t \<rparr>"

definition column_name :: "pystr \<Rightarrow> pystr \<Rightarrow> pystr" where
  "column_name code name = code @ [32] @ name"

section \<open>Weekly horizon\<close>

text \<open>The two points of one daily bar: its open at 09:00 and its close at 13:30.\<close>

definition bar_points :: "bar \<Rightarrow> datetime series" where
  "bar_points b = [((bdate b, 9, 0), Fin (Open b)), ((bdate b, 13, 30), Fin (Close b))]"

definition weekly_series :: "bar list \<Rightarrow> datetime series" where
  "weekly_series df =
     (let points = concat (map bar_points df) in
      case points of
        [] \<Rightarrow> []
      | p # _ \<Rightarrow> (let start_price = snd p in
                  map (\<lambda>(t, price). (t, pct_return price start_price)) points))"

definition weekly_try :: "env \<Rightarrow> date \<Rightarrow> ticker \<Rightarrow> datetime frame \<Rightarrow> exn + datetime frame" where
  "weekly_try e start_date tk trend_data =
     (case tk of (code, symbol, name) \<Rightarrow>
        (case history_from e symbol start_date of
           Inl x \<Rightarrow> Inl x
         | Inr df \<Rightarrow>
            if df \<noteq> [] then
              (if frame_empty trend_data
               then Inr (frame_of_series (column_name code name) (weekly_series df))
               else join_outer trend_data (column_name code name) (weekly_series df))
            else Inr trend_data))"

definition weekly_step :: "env \<Rightarrow> date \<Rightarrow> ticker \<Rightarrow> datetime frame \<Rightarrow> datetime frame" where
  "weekly_step e start_date tk trend_data =
     (case weekly_try e start_date tk trend_data of Inl x \<Rightarrow> trend_data | Inr t \<Rightarrow> t)"

definition weekly_table :: "env \<Rightarrow> date \<Rightarrow> ticker list \<Rightarrow> datetime frame" where
  "weekly_table e start_date tks = fold (weekly_step e start_date) tks empty_frame"

text \<open>
  The column name of a ticker, and what a ticker brings to the weekly table: its column name
  and its series, when the fetch returns bars.
\<close>

definition ticker_column :: "ticker \<Rightarrow> pystr" where
  "ticker_column tk = (case tk of (code, symbol, name) \<Rightarrow> column_name code name)"

definition weekly_contrib :: "env \<Rightarrow> date \<Rightarrow> ticker \<Rightarrow> (pystr \<times> datetime series) list" where
  "weekly_contrib e start_date tk =
     (case history_from e (fst (snd tk)) start_date of
        Inl x \<Rightarrow> []
      | Inr df \<Rightarrow> if df \<noteq> [] then [(ticker_column tk, weekly_series df)] else [])"

definition weekly_contribs :: "env \<Rightarrow> date \<Rightarrow> ticker list \<Rightarrow> (pystr \<times> datetime series) list" where
  "weekly_contribs e start_date tks = concat (map (weekly_contrib e start_date) tks)"

text \<open>
  A frame holds a list of named series when its columns are those series, in order, read
  by label, on an index without repeats that is the union of their labels.
\<close>

definition frame_holds :: "'k frame \<Rightarrow> (pystr \<times> 'k series) list \<Rightarrow> bool" where
  "frame_holds t P =
     (distinct (index t)
      \<and> set (index t) = \<Union> ((\<lambda>nS. fst ` set (snd nS)) ` set P)
      \<and> list_all (\<lambda>nS. snd nS \<noteq> [] \<and> distinct (map fst (snd nS))) P
      \<and> list_all2 (\<lambda>nc nS. fst nc = fst nS \<and> length (snd nc) = length (index t)
                      \<and> cell_at (index t) (snd nc) = cell_at (map fst (snd nS)) (map snd (snd nS)))
           (columns t) P)"

definition weekdays_map :: "nat \<Rightarrow> pystr" where
  "weekdays_map wd = [[36913, 19968], [36913, 20108], [36913, 19977], [36913, 22235],
                      [36913, 20116], [36913, 20845], [36913, 26085]] ! wd"

definition weekly_label :: "datetime \<Rightarrow> pystr" where
  "weekly_label dt =
     (let wd = weekdays_map (weekday (date_of dt));
          hm = strftime_HM dt;
          md = decimal (month (date_of dt)) @ [26376] @ decimal (day (date_of dt)) @ [34399]
      in md @ [32] @ wd @ [32] @ hm)"

text \<open>\<open>monday = today - timedelta(days=today.weekday())\<close>, read as a date.\<close>

definition week_start :: "datetime \<Rightarrow> date" where
  "week_start now = (let today = date_of now in add_days today (- int (weekday today)))"

definition weekly_frame :: "env \<Rightarrow> datetime \<Rightarrow> ticker list \<Rightarrow> datetime frame" where
  "weekly_frame e now tks =
     (let trend_data = weekly_table e (week_start now) tks
      in if \<not> frame_empty trend_data then sort_index trend_data else trend_data)"

definition get_weekly_trend :: "env \<Rightarrow> datetime \<Rightarrow> ticker list \<Rightarrow> ui \<Rightarrow> pystr frame \<times> ui" where
  "get_weekly_trend e now tks u = (relabel weekly_label (weekly_frame e now tks), u)"

section \<open>Monthly horizon\<close>

definition monthly_try :: "env \<Rightarrow> date \<Rightarrow> ticker \<Rightarrow> date frame \<Rightarrow> exn + date frame" where
  "monthly_try e start_date tk trend_data =
     (case tk of (code, symbol, name) \<Rightarrow>
        (case history_from e symbol start_date of
           Inl x \<Rightarrow> Inl x
         | Inr df \<Rightarrow>
            (case df of
               [] \<Rightarrow> Inr trend_data
             | b # _ \<Rightarrow>
                (let start_price = Fin (Close b) in
                 if fpos start_price then
                   (let series = map (\<lambda>r. (bdate r, pct_return (Fin (Close r)) start_price)) df in
                    if frame_empty trend_data
                    then Inr (frame_of_series (column_name code name) series)
                    else join_outer trend_data (column_name code name) series)
                 else Inr trend_data))))"

definition monthly_step :: "env \<Rightarrow> date \<Rightarrow> ticker \<Rightarrow> date frame \<Rightarrow> date frame" where
  "monthly_step e start_date tk trend_data =
     (case monthly_try e start_date tk trend_data of Inl x \<Rightarrow> trend_data | Inr t \<Rightarrow> t)"

definition monthly_table :: "env \<Rightarrow> date \<Rightarrow> ticker list \<Rightarrow> date frame" where
  "monthly_table e start_date tks = fold (monthly_step e start_date) tks empty_frame"

text \<open>\<open>today.replace(day=1)\<close>.\<close>

definition month_start :: "datetime \<Rightarrow> date" where
  "month_start now = (year (date_of now), month (date_of now), 1)"

definition monthly_frame :: "env \<Rightarrow> datetime \<Rightarrow> ticker list \<Rightarrow> date frame" where
  "monthly_frame e now tks =
     (let trend_data = monthly_table e (month_start now) tks
      in if \<not> frame_empty trend_data then sort_index trend_data else trend_data)"

definition get_monthly_trend :: "env \<Rightarrow> datetime \<Rightarrow> ticker list \<Rightarrow> ui \<Rightarrow> pystr frame \<times> ui" where
  "get_monthly_trend e now tks u = (relabel strftime_md (monthly_frame e now tks), u)"

section \<open>Yearly horizon\<close>

text \<open>Assignment to a key of a dict: an existing key keeps its place.\<close>

fun dict_set :: "'a \<Rightarrow> 'b \<Rightarrow> ('a \<times> 'b) list \<Rightarrow> ('a \<times> 'b) list" where
  "dict_set k v [] = [(k, v)]"
| "dict_set k v (p # ps) = (if fst p = k then (k, v) # ps else p # dict_set k v ps)"

text \<open>
  Step 1, the body of the \<open>try\<close> block for one ticker: bars without volume go, and so does
  the last bar when it is today's and the session has not closed. Reading the last label
  of a frame that the volume filter emptied raises \<open>IndexError\<close>.
\<close>

definition yearly_try ::
  "env \<Rightarrow> datetime \<Rightarrow> ticker \<Rightarrow> (pystr \<times> date series) list \<Rightarrow> exn + (pystr \<times> date series) list" where
  "yearly_try e now tk all_series =
     (case tk of (code, symbol, name) \<Rightarrow>
        (case history_from e symbol (year (date_of now), 1, 1) of
           Inl x \<Rightarrow> Inl x
         | Inr df0 \<Rightarrow>
            if df0 \<noteq> [] then
              (let df = filter (\<lambda>b. 0 < Volume b) df0 in
               if df = [] then Inl IndexError
               else (let last_date = bdate (last df);
                         df' = (if last_date = date_of now \<and> strftime_HM now < of_ascii ''13:30''
                                then butlast df else df)
                     in if df' \<noteq> []
                        then Inr (dict_set (column_name code name)
                                           (map (\<lambda>b. (bdate b, Fin (Close b))) df') all_series)
                        else Inr all_series))
            else Inr all_series))"

definition yearly_step ::
  "env \<Rightarrow> datetime \<Rightarrow> ticker \<Rightarrow> (pystr \<times> date series) list \<Rightarrow> (pystr \<times> date series) list" where
  "yearly_step e now tk all_series =
     (case yearly_try e now tk all_series of Inl x \<Rightarrow> all_series | Inr d \<Rightarrow> d)"

definition yearly_collect :: "env \<Rightarrow> datetime \<Rightarrow> ticker list \<Rightarrow> (pystr \<times> date series) list" where
  "yearly_collect e now tks = fold (yearly_step e now) tks []"

text \<open>
  Step 2: \<open>pd.DataFrame(all_series)\<close> puts the series side by side on the sorted union of
  their dates; then \<open>sort_index\<close> and \<open>ffill\<close>.
\<close>

definition frame_of_dict :: "(pystr \<times> ('k::linorder) series) list \<Rightarrow> 'k frame" where
  "frame_of_dict d =
     (let idx = sort (remdups (concat (map (\<lambda>(n, s). map fst s) d))) in
      \<lparr> index = idx,
        columns = map (\<lambda>(n, s). (n, reindex (map fst s) (map snd s) idx)) d \<rparr>)"

fun ffill_from :: "fval \<Rightarrow> fval list \<Rightarrow> fval list" where
  "ffill_from prev [] = []"
| "ffill_from prev (v # vs) = (if notna v then v # ffill_from v vs else prev # ffill_from prev vs)"

definition ffill :: "'k frame \<Rightarrow> 'k frame" where
  "ffill t = \<lparr> index = index t, columns = map (\<lambda>(n, c). (n, ffill_from NaN c)) (columns t) \<rparr>"

text \<open>
  Step 3: \<open>valid_counts\<close> is the number of non-null cells of a row, and the row stays when
  \<open>valid_counts >= len(valid_tickers) * 0.3\<close>. The count is a whole number, so the float
  comparison decides as the exact one does.
\<close>

definition valid_count :: "'k frame \<Rightarrow> nat \<Rightarrow> nat" where
  "valid_count t i = length (filter (\<lambda>(n, c). notna (c ! i)) (columns t))"

definition threshold :: "nat \<Rightarrow> rat" where
  "threshold n = of_nat n * (3 / 10)"

definition coverage_filter :: "nat \<Rightarrow> 'k frame \<Rightarrow> 'k frame" where
  "coverage_filter n t =
     take_rows (filter (\<lambda>i. threshold n \<le> of_nat (valid_count t i)) [0..<length (index t)]) t"

text \<open>
  Step 4: \<open>groupby('Month')\<close> walks the month numbers in ascending order, each group in
  index order; the first label of a group is taken, and the last one when it differs.
\<close>

definition month_group :: "date list \<Rightarrow> nat \<Rightarrow> date list" where
  "month_group idx m = filter (\<lambda>d. month d = m) idx"

definition group_targets :: "date list \<Rightarrow> date list" where
  "group_targets g =
     (case g of [] \<Rightarrow> [] | d # _ \<Rightarrow> d # (if last g \<noteq> d then [last g] else []))"

definition target_dates :: "date list \<Rightarrow> date list" where
  "target_dates idx =
     concat (map (\<lambda>m. group_targets (month_group idx m)) (sort (remdups (map month idx))))"

text \<open>Step 5: \<open>combined_df.loc[target_dates]\<close>, every row that carries the label.\<close>

definition loc :: "'k list \<Rightarrow> 'k frame \<Rightarrow> 'k frame" where
  "loc labels t =
     take_rows (concat (map (\<lambda>l. filter (\<lambda>i. index t ! i = l) [0..<length (index t)]) labels)) t"

definition yearly_combined :: "(pystr \<times> date series) list \<Rightarrow> date frame" where
  "yearly_combined all_series = ffill (sort_index (frame_of_dict all_series))"

definition yearly_final_df :: "nat \<Rightarrow> (pystr \<times> date series) list \<Rightarrow> date frame" where
  "yearly_final_df n all_series =
     (let combined_df = coverage_filter n (yearly_combined all_series)
      in loc (target_dates (index combined_df)) combined_df)"

text \<open>
  Step 6: a column is kept when it has a first valid price and that price is positive. The
  first column assigned to the empty \<open>trend_data\<close> brings the index along.
\<close>

definition first_valid :: "fval list \<Rightarrow> fval option" where
  "first_valid c = find notna c"

definition yearly_column :: "pystr \<times> fval list \<Rightarrow> (pystr \<times> fval list) list" where
  "yearly_column nc =
     (case nc of (col, c) \<Rightarrow>
        (case first_valid c of
           None \<Rightarrow> []
         | Some start_price \<Rightarrow>
             if fpos start_price then [(col, map (\<lambda>v. pct_return v start_price) c)] else []))"

definition yearly_returns :: "'k frame \<Rightarrow> 'k frame" where
  "yearly_returns final_df =
     (let cols = concat (map yearly_column (columns final_df)) in
      if cols = [] then empty_frame else \<lparr> index = index final_df, columns = cols \<rparr>)"

definition yearly_table :: "env \<Rightarrow> datetime \<Rightarrow> ticker list \<Rightarrow> date frame" where
  "yearly_table e now tks =
     (let all_series = yearly_collect e now tks in
      if all_series = [] then empty_frame
      else yearly_returns (yearly_final_df (length tks) all_series))"

definition get_yearly_trend :: "env \<Rightarrow> datetime \<Rightarrow> ticker list \<Rightarrow> ui \<Rightarrow> pystr frame \<times> ui" where
  "get_yearly_trend e now tks u = (relabel strftime_md (yearly_table e now tks), u)"

text \<open>The dates that are left after the coverage filter of step 3, in index order.\<close>

definition qualifying_rows :: "env \<Rightarrow> datetime \<Rightarrow> ticker list \<Rightarrow> date list" where
  "qualifying_rows e now tks =
     index (coverage_filter (length tks) (yearly_combined (yearly_collect e now tks)))"

section \<open>Concrete inputs\<close>

text \<open>
  A small market used to run the functions: ticker \<open>A.TW\<close> trades on two days, \<open>B.TW\<close> only
  on the second, \<open>C.TW\<close> on four days of two months, \<open>D.TW\<close> on two of them, \<open>Z.TW\<close> opens its only bar at price 0, \<open>Y.TW\<close> closes its only bar at
  price 0, every other symbol makes the fetch raise. No symbol has a \<open>longName\<close> except \<open>B.TW\<close>, and \<open>twstock\<close> is not loaded.
\<close>

definition mk_bar :: "date \<Rightarrow> rat \<Rightarrow> rat \<Rightarrow> nat \<Rightarrow> bar" where
  "mk_bar d opn cls vol = \<lparr> bdate = d, Open = opn, High = max opn cls, Low = min opn cls,
                            Close = cls, Volume = vol \<rparr>"

definition demo_bars :: "pystr \<Rightarrow> exn + bar list" where
  "demo_bars symbol =
     (if symbol = of_ascii ''A.TW'' then Inr [mk_bar (2025, 12, 8) 100 110 5, mk_bar (2025, 12, 9) 110 121 7]
      else if symbol = of_ascii ''B.TW'' then Inr [mk_bar (2025, 12, 9) 50 40 3]
      else if symbol = of_ascii ''C.TW'' then
        Inr [mk_bar (2025, 11, 28) 20 20 4, mk_bar (2025, 12, 5) 20 21 4,
             mk_bar (2025, 12, 8) 21 22 6, mk_bar (2025, 12, 9) 22 25 8]
      else if symbol = of_ascii ''D.TW'' then
        Inr [mk_bar (2025, 12, 5) 30 30 9, mk_bar (2025, 12, 9) 30 33 9]
      else if symbol = of_ascii ''Z.TW'' then Inr [mk_bar (2025, 12, 8) 0 10 2]
      else if symbol = of_ascii ''Y.TW'' then Inr [mk_bar (2025, 12, 9) 5 0 1]
      else Inl (FetchError (of_ascii ''timeout'')))"

definition demo_env :: env where
  "demo_env = \<lparr> history_period5d = demo_bars,
                 history_from = (\<lambda>symbol start. demo_bars symbol),
                 history_range = (\<lambda>symbol start stop.
                    case demo_bars symbol of
                      Inl x \<Rightarrow> Inl x
                    | Inr df \<Rightarrow> Inr (filter (\<lambda>b. start \<le> bdate b \<and> bdate b < stop) df)),
                 info_longName = (\<lambda>symbol. if symbol = of_ascii ''B.TW''
                                             then Inr (Some (of_ascii ''Beta Corp'')) else Inr None),
                 twstock = None \<rparr>"

definition demo_now :: datetime where
  "demo_now = ((2025, 12, 10), 10, 0)"

definition demo_A :: ticker where
  "demo_A = (of_ascii ''A'', of_ascii ''A.TW'', of_ascii ''Alpha'')"

definition demo_B :: ticker where
  "demo_B = (of_ascii ''B'', of_ascii ''B.TW'', of_ascii ''Beta'')"

definition demo_C :: ticker where
  "demo_C = (of_ascii ''C'', of_ascii ''C.TW'', of_ascii ''Gamma'')"

definition demo_D :: ticker where
  "demo_D = (of_ascii ''D'', of_ascii ''D.TW'', of_ascii ''Delta'')"

definition demo_X :: ticker where
  "demo_X = (of_ascii ''X'', of_ascii ''X.TW'', of_ascii ''Xi'')"

definition demo_Y :: ticker where
  "demo_Y = (of_ascii ''Y'', of_ascii ''Y.TW'', of_ascii ''Upsilon'')"

definition demo_Z :: ticker where
  "demo_Z = (of_ascii ''Z'', of_ascii ''Z.TW'', of_ascii ''Zeta'')"

text \<open>Ten tickers: three on the data of \<open>A.TW\<close>, seven on the data of \<open>B.TW\<close>.\<close>

definition demo_ten :: "ticker list" where
  "demo_ten =
     [(of_ascii ''A1'', of_ascii ''A.TW'', of_ascii ''Alpha''),
      (of_ascii ''A2'', of_ascii ''A.TW'', of_ascii ''Alpha''),
      (of_ascii ''A3'', of_ascii ''A.TW'', of_ascii ''Alpha''),
      (of_ascii ''B1'', of_ascii ''B.TW'', of_ascii ''Beta''),
      (of_ascii ''B2'', of_ascii ''B.TW'', of_ascii ''Beta''),
      (of_ascii ''B3'', of_ascii ''B.TW'', of_ascii ''Beta''),
      (of_ascii ''B4'', of_ascii ''B.TW'', of_ascii ''Beta''),
      (of_ascii ''B5'', of_ascii ''B.TW'', of_ascii ''Beta''),
      (of_ascii ''B6'', of_ascii ''B.TW'', of_ascii ''Beta''),
      (of_ascii ''B7'', of_ascii ''B.TW'', of_ascii ''Beta'')]"

section \<open>Evaluation rules\<close>

lemmas demo_defs = demo_env_def demo_bars_def of_ascii_def mk_bar_def demo_now_def

lemmas frame_defs = frame_empty_def empty_frame_def frame_of_series_def column_name_def
  join_outer_def reindex_def take_rows_def sort_index_def relabel_def

lemmas clock_defs = date_of_def hour_def minute_def year_def month_def day_def

section \<open>The session gate\<close>

text \<open>
  On a valid clock, comparing the \<open>%H:%M\<close> text with \<open>'13:30'\<close> as strings is comparing the
  time of day with 13:30.
\<close>

lemma strftime_HM_before_close:
  "h < 24 \<Longrightarrow> m < 60 \<Longrightarrow>
   strftime_HM (d, h, m) < of_ascii ''13:30'' \<longleftrightarrow> h < 13 \<or> h = 13 \<and> m < 30"
  apply (simp add: strftime_HM_def two_digits_def of_ascii_def hour_def minute_def)
  by presburger

text \<open>
  C1. With \<open>now\<close> read in Asia/Taipei: a target date after today's date, or today's date
  while the time of day is before 13:30, gives the empty result and leaves the page alone;
  every other target date, today at or after 13:30 included, runs the per-security fetch
  loop.
\<close>

theorem session_gate:
  assumes "hour now < 24" and "minute now < 60"
  shows "get_history_by_date e now stock_list target_date u =
     (if date_of now < target_date
         \<or> (target_date = date_of now \<and> (hour now < 13 \<or> hour now = 13 \<and> minute now < 30))
      then ([], u)
      else (history_rows e target_date stock_list, u))"
proof -
  obtain d h m where now: "now = (d, h, m)" by (cases now) auto
  from assms have "h < 24" "m < 60" by (simp_all add: now hour_def minute_def)
  then have "strftime_HM now < of_ascii ''13:30'' \<longleftrightarrow> h < 13 \<or> h = 13 \<and> m < 30"
    unfolding now by (rule strftime_HM_before_close)
  then show ?thesis
    by (auto simp add: get_history_by_date_def now hour_def minute_def date_of_def)
qed

theorem session_gate_witness:
  "get_history_by_date demo_env ((2025, 12, 9), 13, 29) [of_ascii ''A''] (2025, 12, 9) [] = ([], [])
   \<and> get_history_by_date demo_env ((2025, 12, 9), 13, 30) [of_ascii ''A''] (2025, 12, 10) [] = ([], [])
   \<and> map h_close (fst (get_history_by_date demo_env ((2025, 12, 9), 13, 30) [of_ascii ''A'']
                          (2025, 12, 9) [])) = [Fin 121]"
proof -
  have a: "hour ((2025, 12, 9), 13, 29) < 24" "minute ((2025, 12, 9), 13, 29) < 60"
    and b: "hour ((2025, 12, 9), 13, 30) < 24" "minute ((2025, 12, 9), 13, 30) < 60"
    by (simp_all add: clock_defs)
  have nd: "add_days (2025, 12, 9) 1 = (2025, 12, 10)"
    by code_simp
  have st: "strip [65] = [65]"
    by (simp add: strip_def isspace_def)
  have "\<exists>r. history_try demo_env (2025, 12, 9) [65] = Inr (Some r) \<and> h_close r = Fin 121"
    by (simp add: history_try_def nd ticker_symbol_def demo_defs rint_def)
  then have rows: "map h_close (history_rows demo_env (2025, 12, 9) [of_ascii ''A'']) = [Fin 121]"
    by (auto simp add: history_rows_def history_step_def st Let_def of_ascii_def)
  show ?thesis
    using session_gate [OF a, of demo_env "[of_ascii ''A'']" "(2025, 12, 9)" "[]"]
      session_gate [OF b, of demo_env "[of_ascii ''A'']" "(2025, 12, 10)" "[]"]
      session_gate [OF b, of demo_env "[of_ascii ''A'']" "(2025, 12, 9)" "[]"] rows
    by (simp add: clock_defs)
qed

section \<open>Names\<close>

lemma manual_miss_B: "map_of MANUAL_STOCK_NAMES [66] = None"
  by (simp add: MANUAL_STOCK_NAMES_def of_ascii_def)

lemma manual_miss_Y: "map_of MANUAL_STOCK_NAMES [89] = None"
  by (simp add: MANUAL_STOCK_NAMES_def of_ascii_def)

lemma strip_B: "strip [66] = [66]"
  by (simp add: strip_def isspace_def)

lemma strip_Y: "strip [89] = [89]"
  by (simp add: strip_def isspace_def)

lemma stock_try_B:
  "\<exists>r t. stock_try demo_env [66] = Inr (Some (r, t)) \<and> s_name r = of_ascii ''Beta Corp''"
  by (simp add: stock_try_def ticker_symbol_def demo_defs resolve_name_def manual_miss_B Let_def)

lemma history_try_B:
  "\<exists>h. history_try demo_env (2025, 12, 9) [66] = Inr (Some h) \<and> h_name h = of_ascii ''Beta Corp''"
proof -
  have nd: "add_days (2025, 12, 9) 1 = (2025, 12, 10)"
    by code_simp
  show ?thesis
    by (simp add: history_try_def nd ticker_symbol_def demo_defs resolve_name_def manual_miss_B Let_def)
qed

text \<open>
  C9 (as amended). In the rows of both \<open>get_stock_data\<close> and \<open>get_history_by_date\<close> the name
  is the manual table's entry when the code is in the table; otherwise the name \<open>twstock\<close>
  holds when the module is loaded and knows the code; otherwise the \<open>longName\<close> that
  yfinance reports when it reports one; and the code itself only when that is missing too.
\<close>

theorem name_resolution:
  "(stock_try e code = Inr (Some (r, t)) \<longrightarrow>
      s_name r = (case map_of MANUAL_STOCK_NAMES code of
                    Some n \<Rightarrow> n
                  | None \<Rightarrow>
                     (case (case twstock e of None \<Rightarrow> None | Some codes \<Rightarrow> codes code) of
                        Some n \<Rightarrow> n
                      | None \<Rightarrow>
                         (case info_longName e (ticker_symbol code) of
                            Inr (Some n) \<Rightarrow> n
                          | _ \<Rightarrow> code))))
   \<and> (history_try e target_date code = Inr (Some h) \<longrightarrow>
      h_name h = (case map_of MANUAL_STOCK_NAMES code of
                    Some n \<Rightarrow> n
                  | None \<Rightarrow>
                     (case (case twstock e of None \<Rightarrow> None | Some codes \<Rightarrow> codes code) of
                        Some n \<Rightarrow> n
                      | None \<Rightarrow>
                         (case info_longName e (ticker_symbol code) of
                            Inr (Some n) \<Rightarrow> n
                          | _ \<Rightarrow> code))))"
  by (auto simp add: stock_try_def history_try_def resolve_name_def Let_def
      split: sum.splits option.splits list.splits if_splits)

theorem name_resolution_witness:
  "(\<exists>r t. stock_try demo_env [66] = Inr (Some (r, t)) \<and> s_name r = of_ascii ''Beta Corp'')
   \<and> (\<exists>h. history_try demo_env (2025, 12, 9) [66] = Inr (Some h) \<and> h_name h = of_ascii ''Beta Corp'')"
proof -
  obtain r t where rt: "stock_try demo_env [66] = Inr (Some (r, t))"
    using stock_try_B by blast
  obtain h where h: "history_try demo_env (2025, 12, 9) [66] = Inr (Some h)"
    using history_try_B by blast
  from name_resolution [of demo_env "[66]" r t "(2025, 12, 9)" h] rt h
  have "s_name r = of_ascii ''Beta Corp''" and "h_name h = of_ascii ''Beta Corp''"
    by (simp_all add: manual_miss_B demo_env_def ticker_symbol_def of_ascii_def)
  with rt h show ?thesis by blast
qed

text \<open>
  The claim as written fails: code \<open>B\<close> is in no table and \<open>twstock\<close> is not loaded, yet its
  row is named by yfinance's \<open>longName\<close>, not by the code.
\<close>

theorem name_fallback_counterexample:
  "map_of MANUAL_STOCK_NAMES (of_ascii ''B'') = None
   \<and> twstock demo_env = None
   \<and> map s_name (data_list (get_stock_data demo_env [of_ascii ''B''] [])) = [of_ascii ''Beta Corp'']
   \<and> of_ascii ''Beta Corp'' \<noteq> of_ascii ''B''"
  using stock_try_B
  by (auto simp add: get_stock_data_def stock_step_def strip_B manual_miss_B Let_def of_ascii_def
      demo_env_def)

section \<open>A history of one bar\<close>

lemma rint_zero: "rint 0 = 0"
  by (simp add: rint_def Let_def)

lemma stock_try_single:
  assumes "history_period5d e (ticker_symbol code) = Inr [b]"
    and "info_longName e (ticker_symbol code) = Inr lname"
  shows "\<exists>r t. stock_try e code = Inr (Some (r, t))
           \<and> s_change r = Fin 0
           \<and> s_pct_change r = round2 (fmul (fdiv (Fin 0) (Fin (Close b))) (Fin 100))"
  using assms by (simp add: stock_try_def Let_def fsub_def rint_zero)

text \<open>
  C10 (as amended). When the 5-day history of a security is a single bar, that bar is its
  own previous close: provided the bar's close is not 0 and the name lookup does not raise,
  the row is appended, with change 0 and percentage change 0, and nothing is reported.
\<close>

theorem single_bar_change:
  assumes "strip raw \<noteq> []"
    and "history_period5d e (ticker_symbol (strip raw)) = Inr [b]"
    and "info_longName e (ticker_symbol (strip raw)) = Inr lname"
    and "Close b \<noteq> 0"
  shows "\<exists>r t. get_stock_data e (xs @ [raw]) u =
            (get_stock_data e xs u)
              \<lparr> data_list := data_list (get_stock_data e xs u) @ [r],
                valid_tickers := valid_tickers (get_stock_data e xs u) @ [t] \<rparr>
          \<and> s_change r = Fin 0 \<and> s_pct_change r = Fin 0"
proof -
  from stock_try_single [OF assms(2,3)] obtain r t where
    rt: "stock_try e (strip raw) = Inr (Some (r, t))" "s_change r = Fin 0"
      "s_pct_change r = round2 (fmul (fdiv (Fin 0) (Fin (Close b))) (Fin 100))"
    by blast
  from rt(3) assms(4) have pct: "s_pct_change r = Fin 0"
    by (simp add: rint_zero)
  have "get_stock_data e (xs @ [raw]) u =
          (get_stock_data e xs u)
            \<lparr> data_list := data_list (get_stock_data e xs u) @ [r],
              valid_tickers := valid_tickers (get_stock_data e xs u) @ [t] \<rparr>"
    using rt(1) assms(1) by (simp add: get_stock_data_def stock_step_def Let_def)
  with rt(2) pct show ?thesis by blast
qed

theorem single_bar_change_witness:
  "map s_change (data_list (get_stock_data demo_env [of_ascii ''B''] [])) = [Fin 0]
   \<and> map s_pct_change (data_list (get_stock_data demo_env [of_ascii ''B''] [])) = [Fin 0]"
proof -
  have a: "strip [66] \<noteq> []"
    by (simp add: strip_B)
  have b: "history_period5d demo_env (ticker_symbol (strip [66])) = Inr [mk_bar (2025, 12, 9) 50 40 3]"
    by (simp add: strip_B ticker_symbol_def demo_env_def demo_bars_def of_ascii_def)
  have c: "info_longName demo_env (ticker_symbol (strip [66])) = Inr (Some (of_ascii ''Beta Corp''))"
    by (simp add: strip_B ticker_symbol_def demo_env_def of_ascii_def)
  have d: "Close (mk_bar (2025, 12, 9) 50 40 3) \<noteq> 0"
    by (simp add: mk_bar_def)
  from single_bar_change [OF a b c d, of "[]" "[]"] show ?thesis
    by (auto simp add: get_stock_data_def of_ascii_def)
qed

text \<open>
  The claim as written fails on a single bar that closes at 0: the row is produced, but its
  percentage change is \<open>0 / 0\<close>, which numpy evaluates to \<open>nan\<close>.
\<close>

theorem single_bar_zero_close_counterexample:
  "history_period5d demo_env (ticker_symbol (of_ascii ''Y'')) = Inr [mk_bar (2025, 12, 9) 5 0 1]
   \<and> map s_pct_change (data_list (get_stock_data demo_env [of_ascii ''Y''] [])) = [NaN]"
  by (simp add: get_stock_data_def stock_step_def strip_Y Let_def stock_try_def ticker_symbol_def
      fsub_def demo_defs)

section \<open>One security fails\<close>

lemma stock_step_rows:
  "data_list st = data_list st' \<Longrightarrow> valid_tickers st = valid_tickers st' \<Longrightarrow>
   data_list (stock_step e raw st) = data_list (stock_step e raw st')
   \<and> valid_tickers (stock_step e raw st) = valid_tickers (stock_step e raw st')"
  by (simp add: stock_step_def Let_def split: sum.splits option.splits prod.splits)

lemma stock_fold_rows:
  "data_list st = data_list st' \<Longrightarrow> valid_tickers st = valid_tickers st' \<Longrightarrow>
   data_list (fold (stock_step e) ys st) = data_list (fold (stock_step e) ys st')
   \<and> valid_tickers (fold (stock_step e) ys st) = valid_tickers (fold (stock_step e) ys st')"
proof (induction ys arbitrary: st st')
  case Nil
  then show ?case by simp
next
  case (Cons y ys)
  have "data_list (stock_step e y st) = data_list (stock_step e y st')
      \<and> valid_tickers (stock_step e y st) = valid_tickers (stock_step e y st')"
    using Cons.prems by (rule stock_step_rows)
  then show ?case
    using Cons.IH [of "stock_step e y st" "stock_step e y st'"] by simp
qed

lemma stock_step_page: "m \<in> set (page st) \<Longrightarrow> m \<in> set (page (stock_step e raw st))"
  by (simp add: stock_step_def Let_def split: sum.splits option.splits prod.splits)

lemma stock_fold_page: "m \<in> set (page st) \<Longrightarrow> m \<in> set (page (fold (stock_step e) ys st))"
  by (induction ys arbitrary: st) (simp_all add: stock_step_page)

lemma stock_step_raise:
  "strip raw \<noteq> [] \<Longrightarrow> stock_try e (strip raw) = Inl x \<Longrightarrow>
   stock_step e raw st = st\<lparr> page := page st @ [Error_fetch (strip raw) x] \<rparr>"
  by (simp add: stock_step_def Let_def)

lemma stock_isolated:
  assumes "strip raw \<noteq> []" and "stock_try e (strip raw) = Inl x"
  shows "data_list (get_stock_data e (xs @ raw # ys) u) = data_list (get_stock_data e (xs @ ys) u)"
    and "valid_tickers (get_stock_data e (xs @ raw # ys) u) = valid_tickers (get_stock_data e (xs @ ys) u)"
    and "Error_fetch (strip raw) x \<in> set (page (get_stock_data e (xs @ raw # ys) u))"
proof -
  let ?st = "fold (stock_step e) xs \<lparr> data_list = [], valid_tickers = [], page = u \<rparr>"
  have step: "stock_step e raw ?st = ?st\<lparr> page := page ?st @ [Error_fetch (strip raw) x] \<rparr>"
    using assms by (rule stock_step_raise)
  have rows: "data_list (fold (stock_step e) ys (stock_step e raw ?st)) = data_list (fold (stock_step e) ys ?st)
      \<and> valid_tickers (fold (stock_step e) ys (stock_step e raw ?st)) = valid_tickers (fold (stock_step e) ys ?st)"
    by (rule stock_fold_rows) (simp_all add: step)
  show "data_list (get_stock_data e (xs @ raw # ys) u) = data_list (get_stock_data e (xs @ ys) u)"
    and "valid_tickers (get_stock_data e (xs @ raw # ys) u) = valid_tickers (get_stock_data e (xs @ ys) u)"
    using rows by (simp_all add: get_stock_data_def)
  have "Error_fetch (strip raw) x \<in> set (page (stock_step e raw ?st))"
    by (simp add: step)
  then show "Error_fetch (strip raw) x \<in> set (page (get_stock_data e (xs @ raw # ys) u))"
    by (simp add: get_stock_data_def stock_fold_page)
qed

lemma history_isolated:
  assumes "history_try e target_date (strip raw) = Inl x"
  shows "get_history_by_date e now (xs @ raw # ys) target_date u
         = get_history_by_date e now (xs @ ys) target_date u"
proof -
  have "history_step e target_date raw rows = rows" for rows
    using assms by (simp add: history_step_def Let_def)
  then show ?thesis
    by (simp add: get_history_by_date_def history_rows_def)
qed

lemma weekly_isolated:
  assumes "weekly_try e (week_start now) tk (weekly_table e (week_start now) tks) = Inl x"
  shows "get_weekly_trend e now (tks @ tk # tks') u = get_weekly_trend e now (tks @ tks') u"
proof -
  have "weekly_table e (week_start now) (tks @ tk # tks') = weekly_table e (week_start now) (tks @ tks')"
    using assms by (simp add: weekly_table_def weekly_step_def)
  then show ?thesis
    by (simp add: get_weekly_trend_def weekly_frame_def)
qed

lemma monthly_isolated:
  assumes "monthly_try e (month_start now) tk (monthly_table e (month_start now) tks) = Inl x"
  shows "get_monthly_trend e now (tks @ tk # tks') u = get_monthly_trend e now (tks @ tks') u"
proof -
  have "monthly_table e (month_start now) (tks @ tk # tks') = monthly_table e (month_start now) (tks @ tks')"
    using assms by (simp add: monthly_table_def monthly_step_def)
  then show ?thesis
    by (simp add: get_monthly_trend_def monthly_frame_def)
qed

lemma yearly_isolated:
  assumes "yearly_try e now tk (yearly_collect e now tks) = Inl x"
  shows "yearly_collect e now (tks @ tk # tks') = yearly_collect e now (tks @ tks')"
  using assms by (simp add: yearly_collect_def yearly_step_def)


text \<open>
  C8 (as amended). An exception raised while fetching or processing one security is caught
  and the loop goes on. In \<open>get_stock_data\<close> it is reported as an error message for that
  code, and the rows and valid tickers are those of the batch without the security. In the
  single-date lookup and in the weekly and monthly trends it is swallowed without any
  message, and the result is that of the batch without the security. In the yearly trend
  it is swallowed without any message and the collected series are those of the batch
  without the security; the coverage threshold still counts the security.
\<close>

theorem failure_isolation:
  "(strip raw \<noteq> [] \<and> stock_try e (strip raw) = Inl x \<longrightarrow>
      data_list (get_stock_data e (xs @ raw # ys) u) = data_list (get_stock_data e (xs @ ys) u)
      \<and> valid_tickers (get_stock_data e (xs @ raw # ys) u) = valid_tickers (get_stock_data e (xs @ ys) u)
      \<and> Error_fetch (strip raw) x \<in> set (page (get_stock_data e (xs @ raw # ys) u)))
   \<and> (history_try e target_date (strip raw) = Inl x \<longrightarrow>
      get_history_by_date e now (xs @ raw # ys) target_date u
        = get_history_by_date e now (xs @ ys) target_date u
      \<and> snd (get_history_by_date e now (xs @ raw # ys) target_date u) = u)
   \<and> (weekly_try e (week_start now) tk (weekly_table e (week_start now) tks) = Inl x \<longrightarrow>
      get_weekly_trend e now (tks @ tk # tks') u = get_weekly_trend e now (tks @ tks') u
      \<and> snd (get_weekly_trend e now (tks @ tk # tks') u) = u)
   \<and> (monthly_try e (month_start now) tk (monthly_table e (month_start now) tks) = Inl x \<longrightarrow>
      get_monthly_trend e now (tks @ tk # tks') u = get_monthly_trend e now (tks @ tks') u
      \<and> snd (get_monthly_trend e now (tks @ tk # tks') u) = u)
   \<and> (yearly_try e now tk (yearly_collect e now tks) = Inl x \<longrightarrow>
      yearly_collect e now (tks @ tk # tks') = yearly_collect e now (tks @ tks')
      \<and> snd (get_yearly_trend e now (tks @ tk # tks') u) = u)"
proof (intro conjI impI)
  assume a: "strip raw \<noteq> [] \<and> stock_try e (strip raw) = Inl x"
  then have a1: "strip raw \<noteq> []" and a2: "stock_try e (strip raw) = Inl x"
    by simp_all
  show "data_list (get_stock_data e (xs @ raw # ys) u) = data_list (get_stock_data e (xs @ ys) u)"
    using a1 a2 by (rule stock_isolated(1))
  show "valid_tickers (get_stock_data e (xs @ raw # ys) u) = valid_tickers (get_stock_data e (xs @ ys) u)"
    using a1 a2 by (rule stock_isolated(2))
  show "Error_fetch (strip raw) x \<in> set (page (get_stock_data e (xs @ raw # ys) u))"
    using a1 a2 by (rule stock_isolated(3))
next
  assume "history_try e target_date (strip raw) = Inl x"
  then show "get_history_by_date e now (xs @ raw # ys) target_date u
        = get_history_by_date e now (xs @ ys) target_date u"
    by (rule history_isolated)
next
  show "snd (get_history_by_date e now (xs @ raw # ys) target_date u) = u"
    by (simp add: get_history_by_date_def)
next
  assume "weekly_try e (week_start now) tk (weekly_table e (week_start now) tks) = Inl x"
  then show "get_weekly_trend e now (tks @ tk # tks') u = get_weekly_trend e now (tks @ tks') u"
    by (rule weekly_isolated)
next
  show "snd (get_weekly_trend e now (tks @ tk # tks') u) = u"
    by (simp add: get_weekly_trend_def)
next
  assume "monthly_try e (month_start now) tk (monthly_table e (month_start now) tks) = Inl x"
  then show "get_monthly_trend e now (tks @ tk # tks') u = get_monthly_trend e now (tks @ tks') u"
    by (rule monthly_isolated)
next
  show "snd (get_monthly_trend e now (tks @ tk # tks') u) = u"
    by (simp add: get_monthly_trend_def)
next
  assume "yearly_try e now tk (yearly_collect e now tks) = Inl x"
  then show "yearly_collect e now (tks @ tk # tks') = yearly_collect e now (tks @ tks')"
    by (rule yearly_isolated)
next
  show "snd (get_yearly_trend e now (tks @ tk # tks') u) = u"
    by (simp add: get_yearly_trend_def)
qed

lemma strip_X: "strip [88] = [88]"
  by (simp add: strip_def isspace_def)

lemma demo_X_raises: "demo_bars [88, 46, 84, 87] = Inl (FetchError (of_ascii ''timeout''))"
  by (simp add: demo_bars_def of_ascii_def)

theorem failure_isolation_witness:
  "data_list (get_stock_data demo_env [of_ascii ''A'', of_ascii ''X'', of_ascii ''B''] [])
     = data_list (get_stock_data demo_env [of_ascii ''A'', of_ascii ''B''] [])
   \<and> Error_fetch (of_ascii ''X'') (FetchError (of_ascii ''timeout''))
       \<in> set (page (get_stock_data demo_env [of_ascii ''A'', of_ascii ''X'', of_ascii ''B''] []))
   \<and> get_history_by_date demo_env demo_now [of_ascii ''A'', of_ascii ''X'', of_ascii ''B''] (2025, 12, 9) []
     = get_history_by_date demo_env demo_now [of_ascii ''A'', of_ascii ''B''] (2025, 12, 9) []
   \<and> get_weekly_trend demo_env demo_now [demo_A, demo_X, demo_B] []
     = get_weekly_trend demo_env demo_now [demo_A, demo_B] []
   \<and> get_monthly_trend demo_env demo_now [demo_A, demo_X, demo_B] []
     = get_monthly_trend demo_env demo_now [demo_A, demo_B] []
   \<and> yearly_collect demo_env demo_now [demo_A, demo_X, demo_B]
     = yearly_collect demo_env demo_now [demo_A, demo_B]"
proof -
  let ?x = "FetchError (of_ascii ''timeout'')"
  have s: "strip [88] \<noteq> [] \<and> stock_try demo_env (strip [88]) = Inl ?x"
    by (simp add: strip_X stock_try_def ticker_symbol_def demo_env_def of_ascii_def demo_X_raises)
  have h: "history_try demo_env (2025, 12, 9) (strip [88]) = Inl ?x"
    by (simp add: strip_X history_try_def ticker_symbol_def demo_env_def of_ascii_def demo_X_raises)
  have w: "weekly_try demo_env (week_start demo_now) demo_X
             (weekly_table demo_env (week_start demo_now) [demo_A]) = Inl ?x"
    by (simp add: weekly_try_def demo_X_def demo_env_def of_ascii_def demo_X_raises)
  have m: "monthly_try demo_env (month_start demo_now) demo_X
             (monthly_table demo_env (month_start demo_now) [demo_A]) = Inl ?x"
    by (simp add: monthly_try_def demo_X_def demo_env_def of_ascii_def demo_X_raises)
  have y: "yearly_try demo_env demo_now demo_X (yearly_collect demo_env demo_now [demo_A]) = Inl ?x"
    by (simp add: yearly_try_def demo_X_def demo_env_def of_ascii_def demo_X_raises)
  from failure_isolation [of "[88]" demo_env ?x "[[65]]" "[[66]]" "[]" "(2025, 12, 9)" demo_now
      demo_X "[demo_A]" "[demo_B]"] s h w m y
  show ?thesis
    by (simp add: strip_X of_ascii_def)
qed

text \<open>
  The claim as written fails twice: the weekly trend reports nothing for the ticker whose
  fetch raised, and two failing tickers in the yearly batch raise the coverage threshold
  enough to drop a row that the batch without them keeps.
\<close>

theorem failure_isolation_counterexample:
  "history_from demo_env (of_ascii ''X.TW'') (week_start demo_now) = Inl (FetchError (of_ascii ''timeout''))
   \<and> snd (get_weekly_trend demo_env demo_now [demo_A, demo_X] []) = []
   \<and> fst (get_yearly_trend demo_env demo_now [demo_A, demo_B, demo_X, demo_X] [])
       \<noteq> fst (get_yearly_trend demo_env demo_now [demo_A, demo_B] [])"
proof -
  have "fst (get_yearly_trend demo_env demo_now [demo_A, demo_B, demo_X, demo_X] []) =
     \<lparr>index = [of_ascii ''12/09''],
      columns = [(of_ascii ''A Alpha'', [Fin 0]), (of_ascii ''B Beta'', [Fin 0])]\<rparr>"
    by code_simp
  moreover have "fst (get_yearly_trend demo_env demo_now [demo_A, demo_B] []) =
     \<lparr>index = [of_ascii ''12/08'', of_ascii ''12/09''],
      columns = [(of_ascii ''A Alpha'', [Fin 0, Fin 10]), (of_ascii ''B Beta'', [NaN, Fin 0])]\<rparr>"
    by code_simp
  ultimately show ?thesis
    by (simp add: get_weekly_trend_def demo_env_def of_ascii_def demo_X_raises)
qed


section \<open>Baselines\<close>

lemma pct_return_self: "a \<noteq> 0 \<Longrightarrow> pct_return (Fin a) (Fin a) = Fin 0"
  by (simp add: pct_return_def fsub_def)

lemma pct_return_zero_base: "pct_return (Fin 0) (Fin 0) = NaN"
  by (simp add: pct_return_def fsub_def)

text \<open>
  Where the baseline is not 0 the first weekly point has return 0; the monthly and the
  yearly aligner only emit a column behind their \<open>start_price > 0\<close> test.
\<close>

lemma weekly_series_baseline:
  "Open b \<noteq> 0 \<Longrightarrow> hd (weekly_series (b # df)) = ((bdate b, 9, 0), Fin 0)"
  by (simp add: weekly_series_def bar_points_def pct_return_self Let_def)

lemma monthly_try_guard:
  assumes "monthly_try e start_date (code, symbol, name) t = Inr t'" and "t' \<noteq> t"
  shows "\<exists>b df. history_from e symbol start_date = Inr (b # df) \<and> 0 < Close b"
proof (cases "history_from e symbol start_date")
  case (Inl x)
  with assms show ?thesis by (simp add: monthly_try_def)
next
  case (Inr df)
  show ?thesis
  proof (cases df)
    case Nil
    with Inr assms show ?thesis by (simp add: monthly_try_def)
  next
    case (Cons b rest)
    with Inr assms have "0 < Close b"
      by (simp add: monthly_try_def Let_def split: if_splits)
    with Inr Cons show ?thesis by simp
  qed
qed

lemma yearly_column_guard:
  assumes "(col, c') \<in> set (yearly_column (n, c))"
  shows "\<exists>p. first_valid c = Some p \<and> fpos p \<and> col = n \<and> c' = map (\<lambda>v. pct_return v p) c"
proof (cases "first_valid c")
  case None
  with assms show ?thesis by (simp add: yearly_column_def)
next
  case (Some p)
  with assms have "fpos p" "col = n" "c' = map (\<lambda>v. pct_return v p) c"
    by (simp_all add: yearly_column_def split: if_splits)
  with Some show ?thesis by simp
qed

text \<open>
  C2 (the code departs from it). The weekly aligner divides by the first open without
  testing it: for a security whose first bar opens at 0 the return at its own baseline
  timestamp is \<open>nan\<close>, not 0, and the security is still in the table.
\<close>

theorem weekly_zero_baseline_return:
  "history_from demo_env (of_ascii ''Z.TW'') (week_start demo_now) = Inr [mk_bar (2025, 12, 8) 0 10 2]
   \<and> weekly_series [mk_bar (2025, 12, 8) 0 10 2]
       = [(((2025, 12, 8), 9, 0), NaN), (((2025, 12, 8), 13, 30), PInf)]
   \<and> weekly_frame demo_env demo_now [demo_Z]
       = \<lparr> index = [((2025, 12, 8), 9, 0), ((2025, 12, 8), 13, 30)],
           columns = [(of_ascii ''Z Zeta'', [NaN, PInf])] \<rparr>"
  by code_simp

text \<open>
  C3 (the code departs from it). The weekly aligner keeps the column of a security whose
  baseline price is 0 and divides by it, where the monthly and the yearly aligner leave
  the column of a security with baseline 0 out.
\<close>

theorem weekly_zero_baseline_column:
  "Open (mk_bar (2025, 12, 8) 0 10 2) \<le> 0
   \<and> columns (fst (get_weekly_trend demo_env demo_now [demo_Z] [])) = [(of_ascii ''Z Zeta'', [NaN, PInf])]
   \<and> columns (fst (get_monthly_trend demo_env demo_now [demo_Y] [])) = []
   \<and> columns (fst (get_yearly_trend demo_env demo_now [demo_Y] [])) = []"
proof -
  have "columns (weekly_frame demo_env demo_now [demo_Z]) = [(of_ascii ''Z Zeta'', [NaN, PInf])]"
    by code_simp
  then have "columns (fst (get_weekly_trend demo_env demo_now [demo_Z] []))
      = [(of_ascii ''Z Zeta'', [NaN, PInf])]"
    by (simp add: get_weekly_trend_def relabel_def)
  moreover have "Open (mk_bar (2025, 12, 8) 0 10 2) \<le> 0
   \<and> columns (fst (get_monthly_trend demo_env demo_now [demo_Y] [])) = []
   \<and> columns (fst (get_yearly_trend demo_env demo_now [demo_Y] [])) = []"
    by code_simp
  ultimately show ?thesis by simp
qed

section \<open>Forward fill\<close>

lemma ffill_from_length: "length (ffill_from p c) = length c"
  by (induction c arbitrary: p) simp_all

lemma ffill_from_keeps: "i < length c \<Longrightarrow> c ! i \<noteq> NaN \<Longrightarrow> ffill_from p c ! i = c ! i"
proof (induction c arbitrary: p i)
  case Nil
  then show ?case by simp
next
  case (Cons v vs)
  then show ?case by (cases i) (simp_all add: notna_def)
qed

lemma ffill_from_no_prior:
  "i < length c \<Longrightarrow> \<forall>l\<le>i. c ! l = NaN \<Longrightarrow> ffill_from p c ! i = p"
proof (induction c arbitrary: i)
  case Nil
  then show ?case by simp
next
  case (Cons v vs)
  from Cons.prems(2) have v: "v = NaN" by auto
  show ?case
  proof (cases i)
    case 0
    with v show ?thesis by (simp add: notna_def)
  next
    case (Suc j)
    with Cons.prems have "j < length vs" and "\<forall>l\<le>j. vs ! l = NaN" by auto
    then have "ffill_from p vs ! j = p" by (rule Cons.IH)
    with v Suc show ?thesis by (simp add: notna_def)
  qed
qed

lemma ffill_from_prior:
  "i < length c \<Longrightarrow> k < i \<Longrightarrow> c ! k \<noteq> NaN \<Longrightarrow> \<forall>l. k < l \<and> l \<le> i \<longrightarrow> c ! l = NaN \<Longrightarrow>
   ffill_from p c ! i = c ! k"
proof (induction c arbitrary: p i k)
  case Nil
  then show ?case by simp
next
  case (Cons v vs)
  from Cons.prems(2) obtain j where i: "i = Suc j" by (cases i) auto
  with Cons.prems(1) have j: "j < length vs" by simp
  show ?case
  proof (cases k)
    case 0
    with Cons.prems(3) have v: "notna v" by (simp add: notna_def)
    from Cons.prems(4) 0 i have "\<forall>l\<le>j. vs ! l = NaN" by auto
    with j have "ffill_from v vs ! j = v" by (rule ffill_from_no_prior)
    with v i 0 show ?thesis by simp
  next
    case (Suc k')
    with Cons.prems i have "k' < j" "vs ! k' \<noteq> NaN" "\<forall>l. k' < l \<and> l \<le> j \<longrightarrow> vs ! l = NaN"
      by auto
    with j have "ffill_from q vs ! j = vs ! k'" for q by (rule Cons.IH)
    with i Suc show ?thesis by simp
  qed
qed

lemma latest_before:
  "\<exists>k<i::nat. P k \<Longrightarrow> \<exists>k<i. P k \<and> (\<forall>l. k < l \<and> l < i \<longrightarrow> \<not> P l)"
proof (induction i)
  case 0
  then show ?case by simp
next
  case (Suc n)
  show ?case
  proof (cases "P n")
    case True
    then show ?thesis by auto
  next
    case False
    with Suc.prems have "\<exists>k<n. P k" by (metis less_Suc_eq)
    then obtain k where k: "k < n" "P k" "\<forall>l. k < l \<and> l < n \<longrightarrow> \<not> P l"
      using Suc.IH by blast
    with False have "\<forall>l. k < l \<and> l < Suc n \<longrightarrow> \<not> P l" by (auto simp add: less_Suc_eq)
    with k show ?thesis by (metis less_Suc_eq)
  qed
qed

section \<open>Coverage filter and month endpoints\<close>

subsection \<open>Index of the stages\<close>

lemma index_take_rows: "index (take_rows ps t) = map (nth (index t)) ps"
  by (simp add: take_rows_def)

lemma index_ffill: "index (ffill t) = index t"
  by (simp add: ffill_def)

lemma map_insort_key: "map f (insort_key f x xs) = insort (f x) (map f xs)"
  by (induction xs) simp_all

lemma map_sort_key: "map f (sort_key f xs) = sort (map f xs)"
  by (induction xs) (simp_all add: map_insort_key)

lemma index_sort_index: "index (sort_index t) = sort (index t)"
  by (simp add: sort_index_def index_take_rows map_sort_key map_nth)

lemma index_frame_of_dict:
  "index (frame_of_dict d) = sort (remdups (concat (map (\<lambda>(n, s). map fst s) d)))"
  by (simp add: frame_of_dict_def Let_def)

lemma index_yearly_combined:
  "index (yearly_combined d) = sort (remdups (concat (map (\<lambda>(n, s). map fst s) d)))"
  by (simp add: yearly_combined_def index_ffill index_sort_index index_frame_of_dict sorted_sort_id)

lemma strict_yearly_combined: "sorted_wrt (<) (index (yearly_combined d))"
  by (simp add: index_yearly_combined strict_sorted_iff)

lemma strict_sorted_take:
  assumes "sorted_wrt (<) xs" and "sorted_wrt (<) ps" and "\<forall>p\<in>set ps. p < length xs"
  shows "sorted_wrt (<) (map (nth xs) ps)"
proof -
  have "sorted_wrt (\<lambda>p q. xs ! p < xs ! q) ps"
  proof (rule sorted_wrt_mono_rel [OF _ assms(2)])
    fix p q
    assume "p \<in> set ps" "q \<in> set ps" "p < q"
    with assms(1,3) show "xs ! p < xs ! q"
      by (auto intro: sorted_wrt_nth_less)
  qed
  then show ?thesis by (simp add: sorted_wrt_map)
qed

lemma threshold_iff: "threshold n \<le> of_nat c \<longleftrightarrow> 3 * n \<le> 10 * c"
proof -
  have "threshold n \<le> of_nat c \<longleftrightarrow> (of_nat (3 * n) :: rat) \<le> of_nat (10 * c)"
    by (simp add: threshold_def field_simps)
  then show ?thesis by (simp only: of_nat_le_iff)
qed

lemma index_coverage_filter:
  "index (coverage_filter n t)
   = map (nth (index t)) (filter (\<lambda>i. 3 * n \<le> 10 * valid_count t i) [0..<length (index t)])"
  by (simp add: coverage_filter_def index_take_rows threshold_iff)

lemma strict_coverage_filter:
  assumes "sorted_wrt (<) (index t)"
  shows "sorted_wrt (<) (index (coverage_filter n t))"
  unfolding index_coverage_filter
  by (rule strict_sorted_take [OF assms]) (simp_all add: sorted_wrt_filter)

lemma strict_qualifying_rows: "sorted_wrt (<) (qualifying_rows e now tks)"
  unfolding qualifying_rows_def by (rule strict_coverage_filter) (rule strict_yearly_combined)

lemma index_loc:
  "index (loc labels t) = concat (map (\<lambda>l. filter (\<lambda>x. x = l) (index t)) labels)"
proof -
  have "map (nth (index t)) (filter (\<lambda>i. index t ! i = l) [0..<length (index t)])
        = filter (\<lambda>x. x = l) (index t)" for l
  proof -
    have "filter (\<lambda>x. x = l) (map (nth (index t)) [0..<length (index t)])
          = map (nth (index t)) (filter (\<lambda>i. index t ! i = l) [0..<length (index t)])"
      by (simp add: filter_map comp_def)
    then show ?thesis by (simp add: map_nth)
  qed
  then show ?thesis
    by (simp add: loc_def index_take_rows map_concat comp_def)
qed

lemma filter_eq_distinct: "distinct xs \<Longrightarrow> l \<in> set xs \<Longrightarrow> filter (\<lambda>x. x = l) xs = [l]"
  by (induction xs) (auto simp add: filter_empty_conv)

lemma index_loc_distinct:
  assumes "distinct (index t)" and "set labels \<subseteq> set (index t)"
  shows "index (loc labels t) = labels"
proof -
  have "concat (map (\<lambda>l. filter (\<lambda>x. x = l) (index t)) labels) = labels"
    using assms(2)
  proof (induction labels)
    case Nil
    then show ?case by simp
  next
    case (Cons l ls)
    then show ?case by (simp add: filter_eq_distinct [OF assms(1)])
  qed
  then show ?thesis by (simp add: index_loc)
qed

subsection \<open>Month groups\<close>

lemma group_targets_subset: "set (group_targets g) \<subseteq> set g"
  by (cases g) (auto simp add: group_targets_def)

lemma target_dates_subset: "set (target_dates idx) \<subseteq> set idx"
proof
  fix d
  assume "d \<in> set (target_dates idx)"
  then obtain m where "d \<in> set (group_targets (month_group idx m))"
    by (auto simp add: target_dates_def)
  with group_targets_subset have "d \<in> set (month_group idx m)" by blast
  then show "d \<in> set idx" by (simp add: month_group_def)
qed

lemma concat_single_month:
  "distinct ms \<Longrightarrow> concat (map (\<lambda>m'. if m' = m then g else []) ms) = (if m \<in> set ms then g else [])"
  by (induction ms) auto

lemma filter_month_group_targets:
  "filter (\<lambda>d. month d = m) (group_targets (month_group idx m'))
   = (if m' = m then group_targets (month_group idx m) else [])"
proof -
  have "\<forall>d\<in>set (group_targets (month_group idx m')). month d = m'"
    using group_targets_subset [of "month_group idx m'"] by (auto simp add: month_group_def)
  then show ?thesis
    by (auto simp add: filter_empty_conv filter_id_conv)
qed

lemma filter_month_target_dates:
  "filter (\<lambda>d. month d = m) (target_dates idx) = group_targets (month_group idx m)"
proof -
  let ?ms = "sort (remdups (map month idx))"
  have "filter (\<lambda>d. month d = m) (target_dates idx)
        = concat (map (\<lambda>m'. if m' = m then group_targets (month_group idx m) else []) ?ms)"
    by (simp add: target_dates_def filter_concat comp_def filter_month_group_targets)
  also have "\<dots> = (if m \<in> set ?ms then group_targets (month_group idx m) else [])"
    by (rule concat_single_month) simp
  also have "\<dots> = group_targets (month_group idx m)"
  proof (cases "m \<in> set ?ms")
    case True
    then show ?thesis by simp
  next
    case False
    then have "month_group idx m = []"
      by (auto simp add: month_group_def filter_empty_conv)
    then show ?thesis by (simp add: group_targets_def)
  qed
  finally show ?thesis .
qed

lemma strict_sorted_bounds:
  fixes g :: "('a::linorder) list"
  assumes "sorted_wrt (<) g" and "d \<in> set g"
  shows "hd g \<le> d \<and> d \<le> last g"
proof -
  from assms(2) obtain i where i: "i < length g" "g ! i = d"
    by (auto simp add: in_set_conv_nth)
  then have ne: "g \<noteq> []" by auto
  have "hd g \<le> d"
  proof (cases "i = 0")
    case True
    with i ne show ?thesis by (simp add: hd_conv_nth)
  next
    case False
    with assms(1) i have "g ! 0 < g ! i" by (auto intro: sorted_wrt_nth_less)
    with i ne show ?thesis by (simp add: hd_conv_nth)
  qed
  moreover have "d \<le> last g"
  proof (cases "i = length g - 1")
    case True
    with i ne show ?thesis by (simp add: last_conv_nth)
  next
    case False
    with i have "i < length g - 1" by simp
    with assms(1) i have "g ! i < g ! (length g - 1)" by (auto intro: sorted_wrt_nth_less)
    with i ne show ?thesis by (simp add: last_conv_nth)
  qed
  ultimately show ?thesis ..
qed

lemma group_targets_cases:
  fixes g :: "date list"
  assumes "sorted_wrt (<) g"
  shows "(g = [] \<longrightarrow> group_targets g = [])
       \<and> (length g = 1 \<longrightarrow> group_targets g = g)
       \<and> (2 \<le> length g \<longrightarrow> group_targets g = [hd g, last g] \<and> hd g < last g)"
proof (cases g)
  case Nil
  then show ?thesis by (simp add: group_targets_def)
next
  case (Cons d rest)
  show ?thesis
  proof (cases rest)
    case Nil
    with Cons show ?thesis by (simp add: group_targets_def)
  next
    case (Cons d' rest')
    with \<open>g = d # rest\<close> assms have "d < last g"
      by (auto simp add: strict_sorted_simps)
    with \<open>g = d # rest\<close> Cons show ?thesis by (simp add: group_targets_def)
  qed
qed

subsection \<open>Index of the output\<close>

lemma index_yearly_final_df:
  "index (yearly_final_df n d) = target_dates (index (coverage_filter n (yearly_combined d)))"
proof -
  let ?F = "coverage_filter n (yearly_combined d)"
  have "sorted_wrt (<) (index ?F)"
    by (rule strict_coverage_filter) (rule strict_yearly_combined)
  then have "distinct (index ?F)" by (simp add: strict_sorted_iff)
  then have "index (loc (target_dates (index ?F)) ?F) = target_dates (index ?F)"
    by (rule index_loc_distinct) (rule target_dates_subset)
  then show ?thesis by (simp add: yearly_final_df_def Let_def)
qed

lemma index_yearly_returns:
  "index (yearly_returns f) = (if columns (yearly_returns f) = [] then [] else index f)"
  by (auto simp add: yearly_returns_def Let_def empty_frame_def)

lemma index_yearly_table:
  "index (yearly_table e now tks)
   = (if columns (yearly_table e now tks) = [] then [] else target_dates (qualifying_rows e now tks))"
  by (simp add: yearly_table_def Let_def empty_frame_def index_yearly_returns index_yearly_final_df
      qualifying_rows_def)


subsection \<open>Coverage\<close>

text \<open>
  C4 (as amended). With the percentages taken of the number of tickers passed to the yearly
  aligner: a date row of the forward-filled table whose non-null cells are fewer than 30%
  of that number is dropped by the coverage filter and is not in the output; a row with 30%
  or more, exactly 30% included, is kept by this stage.
\<close>

theorem coverage_rows:
  assumes "i < length (index (yearly_combined (yearly_collect e now tks)))"
  shows "(3 * length tks \<le> 10 * valid_count (yearly_combined (yearly_collect e now tks)) i \<longrightarrow>
            index (yearly_combined (yearly_collect e now tks)) ! i
              \<in> set (index (coverage_filter (length tks) (yearly_combined (yearly_collect e now tks)))))
       \<and> (10 * valid_count (yearly_combined (yearly_collect e now tks)) i < 3 * length tks \<longrightarrow>
            index (yearly_combined (yearly_collect e now tks)) ! i
              \<notin> set (index (coverage_filter (length tks) (yearly_combined (yearly_collect e now tks))))
          \<and> index (yearly_combined (yearly_collect e now tks)) ! i
              \<notin> set (index (yearly_table e now tks)))"
proof -
  let ?C = "yearly_combined (yearly_collect e now tks)"
  let ?n = "length tks"
  let ?ok = "\<lambda>i. 3 * ?n \<le> 10 * valid_count ?C i"
  have dist: "distinct (index ?C)"
    using strict_yearly_combined [of "yearly_collect e now tks"] by (simp add: strict_sorted_iff)
  have mem: "index ?C ! i \<in> set (index (coverage_filter ?n ?C)) \<longleftrightarrow> ?ok i"
  proof
    assume "index ?C ! i \<in> set (index (coverage_filter ?n ?C))"
    then obtain j where j: "j < length (index ?C)" "?ok j" "index ?C ! j = index ?C ! i"
      by (auto simp add: index_coverage_filter)
    with dist assms have "j = i" by (simp add: nth_eq_iff_index_eq)
    with j show "?ok i" by simp
  next
    assume "?ok i"
    with assms show "index ?C ! i \<in> set (index (coverage_filter ?n ?C))"
      by (auto simp add: index_coverage_filter)
  qed
  have "set (index (yearly_table e now tks)) \<subseteq> set (index (coverage_filter ?n ?C))"
    using target_dates_subset [of "qualifying_rows e now tks"]
    by (auto simp add: index_yearly_table qualifying_rows_def)
  with mem show ?thesis by auto
qed

theorem coverage_rows_witness:
  "valid_count (yearly_combined (yearly_collect demo_env demo_now [demo_A, demo_B, demo_X, demo_X])) 0 = 1
   \<and> (2025, 12, 8) \<notin> set (index (yearly_table demo_env demo_now [demo_A, demo_B, demo_X, demo_X]))
   \<and> valid_count (yearly_combined (yearly_collect demo_env demo_now [demo_A, demo_B, demo_X, demo_X])) 1 = 2
   \<and> (2025, 12, 9) \<in> set (index (coverage_filter (length [demo_A, demo_B, demo_X, demo_X])
          (yearly_combined (yearly_collect demo_env demo_now [demo_A, demo_B, demo_X, demo_X]))))"
proof -
  let ?tks = "[demo_A, demo_B, demo_X, demo_X]"
  let ?C = "yearly_combined (yearly_collect demo_env demo_now ?tks)"
  have idx: "index ?C = [(2025, 12, 8), (2025, 12, 9)]"
    by code_simp
  have v0: "valid_count ?C 0 = 1" and v1: "valid_count ?C 1 = 2"
    by code_simp+
  have i0: "0 < length (index ?C)" and i1: "1 < length (index ?C)"
    by (simp_all add: idx)
  from coverage_rows [OF i0] coverage_rows [OF i1] v0 v1 show ?thesis
    by (simp add: idx)
qed

text \<open>
  The claim as written fails at the boundary: with ten tickers, the row of 8 December has
  three non-null cells and seven null ones (70% null) and is in the output.
\<close>

theorem coverage_boundary_counterexample:
  "length demo_ten = 10
   \<and> index (yearly_combined (yearly_collect demo_env demo_now demo_ten)) ! 0 = (2025, 12, 8)
   \<and> map (hd \<circ> snd) (columns (yearly_combined (yearly_collect demo_env demo_now demo_ten)))
       = [Fin 110, Fin 110, Fin 110, NaN, NaN, NaN, NaN, NaN, NaN, NaN]
   \<and> index (fst (get_yearly_trend demo_env demo_now demo_ten [])) = [of_ascii ''12/08'', of_ascii ''12/09'']"
  by code_simp

subsection \<open>Endpoints\<close>

text \<open>
  C5 (as amended). In the table that the month-endpoint selection keeps (\<open>final_df\<close>), the
  rows of a month number are: none when no row of that month is left after the coverage
  filter, that row alone when one is left, and otherwise the first and the last of them,
  which differ; every row left in the month lies between the two, so a month has at most 2
  rows. The output table has the rows of \<open>final_df\<close> when it has a column, and no row at all
  when no security has a positive baseline.
\<close>

theorem month_endpoints:
  "(month_group (qualifying_rows e now tks) m = [] \<longrightarrow>
      filter (\<lambda>d. month d = m) (index (yearly_final_df (length tks) (yearly_collect e now tks))) = [])
   \<and> (length (month_group (qualifying_rows e now tks) m) = 1 \<longrightarrow>
      filter (\<lambda>d. month d = m) (index (yearly_final_df (length tks) (yearly_collect e now tks)))
        = month_group (qualifying_rows e now tks) m)
   \<and> (2 \<le> length (month_group (qualifying_rows e now tks) m) \<longrightarrow>
      filter (\<lambda>d. month d = m) (index (yearly_final_df (length tks) (yearly_collect e now tks)))
        = [hd (month_group (qualifying_rows e now tks) m),
           last (month_group (qualifying_rows e now tks) m)]
      \<and> hd (month_group (qualifying_rows e now tks) m)
          < last (month_group (qualifying_rows e now tks) m))
   \<and> (\<forall>d\<in>set (month_group (qualifying_rows e now tks) m).
        hd (month_group (qualifying_rows e now tks) m) \<le> d
        \<and> d \<le> last (month_group (qualifying_rows e now tks) m))
   \<and> length (filter (\<lambda>d. month d = m)
        (index (yearly_final_df (length tks) (yearly_collect e now tks)))) \<le> 2
   \<and> index (yearly_table e now tks)
       = (if columns (yearly_table e now tks) = [] then []
          else index (yearly_final_df (length tks) (yearly_collect e now tks)))"
proof -
  let ?g = "month_group (qualifying_rows e now tks) m"
  let ?fin = "index (yearly_final_df (length tks) (yearly_collect e now tks))"
  let ?out = "filter (\<lambda>d. month d = m) ?fin"
  have fin: "?fin = target_dates (qualifying_rows e now tks)"
    by (simp add: index_yearly_final_df qualifying_rows_def)
  have g: "sorted_wrt (<) ?g"
    unfolding month_group_def by (rule sorted_wrt_filter) (rule strict_qualifying_rows)
  have out: "?out = group_targets ?g"
    by (simp add: fin filter_month_target_dates)
  note c = group_targets_cases [OF g]
  have b: "\<forall>d\<in>set ?g. hd ?g \<le> d \<and> d \<le> last ?g"
    using strict_sorted_bounds [OF g] by blast
  have l: "length (group_targets ?g) \<le> 2"
    by (cases ?g) (simp_all add: group_targets_def)
  have t: "index (yearly_table e now tks)
       = (if columns (yearly_table e now tks) = [] then [] else ?fin)"
    by (simp add: index_yearly_table fin)
  from out c b l t show ?thesis by simp
qed

theorem month_endpoints_witness:
  "month_group (qualifying_rows demo_env demo_now [demo_C]) 11 = [(2025, 11, 28)]
   \<and> filter (\<lambda>d. month d = 11) (index (yearly_table demo_env demo_now [demo_C])) = [(2025, 11, 28)]
   \<and> month_group (qualifying_rows demo_env demo_now [demo_C]) 12
       = [(2025, 12, 5), (2025, 12, 8), (2025, 12, 9)]
   \<and> filter (\<lambda>d. month d = 12) (index (yearly_table demo_env demo_now [demo_C]))
       = [(2025, 12, 5), (2025, 12, 9)]"
proof -
  have cols: "columns (yearly_table demo_env demo_now [demo_C]) \<noteq> []"
    by code_simp
  have g11: "month_group (qualifying_rows demo_env demo_now [demo_C]) 11 = [(2025, 11, 28)]"
    by code_simp
  have g12: "month_group (qualifying_rows demo_env demo_now [demo_C]) 12
       = [(2025, 12, 5), (2025, 12, 8), (2025, 12, 9)]"
    by code_simp
  from month_endpoints [of demo_env demo_now "[demo_C]" 11]
    month_endpoints [of demo_env demo_now "[demo_C]" 12] cols g11 g12
  show ?thesis by simp
qed

text \<open>
  The claim as written fails on the output: security \<open>Y\<close> leaves one December row after the
  coverage filter, but its baseline is 0, no column is emitted and the output has no row.
\<close>

theorem month_endpoints_counterexample:
  "month_group (qualifying_rows demo_env demo_now [demo_Y]) 12 = [(2025, 12, 9)]
   \<and> index (fst (get_yearly_trend demo_env demo_now [demo_Y] [])) = []"
  by code_simp

subsection \<open>Forward fill in the aligner\<close>

text \<open>
  The table built from the collected series is already sorted on its index, so
  \<open>sort_index\<close> leaves it as it is, and each column of the combined table is the fill of
  the security's own series read on the union of the dates.
\<close>

lemma take_rows_all:
  assumes "\<forall>nc\<in>set (columns t). length (snd nc) = length (index t)"
  shows "take_rows [0..<length (index t)] t = t"
proof -
  have "map (\<lambda>(n, c). (n, map (nth c) [0..<length (index t)])) (columns t) = columns t"
  proof (rule map_idI)
    fix nc
    assume "nc \<in> set (columns t)"
    with assms have "length (snd nc) = length (index t)" by blast
    then have "map (nth (snd nc)) [0..<length (index t)] = snd nc"
      by (metis map_nth)
    then show "(case nc of (n, c) \<Rightarrow> (n, map (nth c) [0..<length (index t)])) = nc"
      by (cases nc) simp
  qed
  then show ?thesis
    by (simp add: take_rows_def map_nth)
qed

lemma sort_index_sorted:
  assumes "sorted (index t)" and "\<forall>nc\<in>set (columns t). length (snd nc) = length (index t)"
  shows "sort_index t = t"
proof -
  have "sorted (map (nth (index t)) [0..<length (index t)])"
    using assms(1) by (simp add: map_nth)
  then have "sort_key (nth (index t)) [0..<length (index t)] = [0..<length (index t)]"
    by (rule sort_key_id_if_sorted)
  with take_rows_all [OF assms(2)] show ?thesis
    by (simp add: sort_index_def)
qed

lemma columns_frame_of_dict:
  "columns (frame_of_dict d)
   = map (\<lambda>(n, S). (n, map (cell_at (map fst S) (map snd S)) (index (frame_of_dict d)))) d"
  by (auto simp add: frame_of_dict_def Let_def reindex_def cell_at_def [abs_def])

lemma yearly_combined_unfold: "yearly_combined d = ffill (frame_of_dict d)"
proof -
  have "sorted (index (frame_of_dict d))"
    by (simp add: index_frame_of_dict)
  moreover have "\<forall>nc\<in>set (columns (frame_of_dict d)). length (snd nc) = length (index (frame_of_dict d))"
    by (auto simp add: columns_frame_of_dict)
  ultimately have "sort_index (frame_of_dict d) = frame_of_dict d"
    by (rule sort_index_sorted)
  then show ?thesis by (simp add: yearly_combined_def)
qed

lemma columns_yearly_combined:
  assumes "j < length d" and "d ! j = (n, S)"
  shows "columns (yearly_combined d) ! j
         = (n, ffill_from NaN (map (cell_at (map fst S) (map snd S)) (index (yearly_combined d))))"
  using assms
  by (simp add: yearly_combined_unfold ffill_def columns_frame_of_dict)

text \<open>
  C6. In the combined table of the yearly aligner, built from the series the aligner
  collected: where a security has no close on a date of the table but has one on an earlier
  date of the table, its cell is the close of the most recent such earlier date and is not
  null; where it has none on any earlier date the cell stays null; where it has a close on
  the date itself the cell is that close.
\<close>

theorem forward_fill:
  assumes "j < length (yearly_collect e now tks)"
    and "yearly_collect e now tks ! j = (n, S)"
    and "i < length (index (yearly_combined (yearly_collect e now tks)))"
    and "cell_at (map fst S) (map snd S) (index (yearly_combined (yearly_collect e now tks)) ! i) = NaN"
  shows "\<exists>c'. columns (yearly_combined (yearly_collect e now tks)) ! j = (n, c')
     \<and> length c' = length (index (yearly_combined (yearly_collect e now tks)))
     \<and> ((\<exists>k<i. cell_at (map fst S) (map snd S) (index (yearly_combined (yearly_collect e now tks)) ! k) \<noteq> NaN) \<longrightarrow>
          (\<exists>k<i. cell_at (map fst S) (map snd S) (index (yearly_combined (yearly_collect e now tks)) ! k) \<noteq> NaN
             \<and> (\<forall>l. k < l \<and> l < i \<longrightarrow>
                   cell_at (map fst S) (map snd S) (index (yearly_combined (yearly_collect e now tks)) ! l) = NaN)
             \<and> c' ! i = cell_at (map fst S) (map snd S) (index (yearly_combined (yearly_collect e now tks)) ! k)
             \<and> c' ! i \<noteq> NaN))
     \<and> ((\<forall>k<i. cell_at (map fst S) (map snd S) (index (yearly_combined (yearly_collect e now tks)) ! k) = NaN) \<longrightarrow>
          c' ! i = NaN)
     \<and> (\<forall>l<length (index (yearly_combined (yearly_collect e now tks))).
          cell_at (map fst S) (map snd S) (index (yearly_combined (yearly_collect e now tks)) ! l) \<noteq> NaN \<longrightarrow>
          c' ! l = cell_at (map fst S) (map snd S) (index (yearly_combined (yearly_collect e now tks)) ! l))"
proof -
  let ?d = "yearly_collect e now tks"
  let ?idx = "index (yearly_combined ?d)"
  let ?cell = "cell_at (map fst S) (map snd S)"
  let ?c = "map ?cell ?idx"
  let ?c' = "ffill_from NaN ?c"
  have col: "columns (yearly_combined ?d) ! j = (n, ?c')"
    using assms(1,2) by (rule columns_yearly_combined)
  have len: "length ?c' = length ?idx"
    by (simp add: ffill_from_length)
  have nth: "?c ! k = ?cell (?idx ! k)" if "k < length ?idx" for k
    using that by simp
  have i: "i < length ?c" and ci: "?c ! i = NaN"
    using assms(3,4) by simp_all
  have prior: "\<exists>k<i. ?cell (?idx ! k) \<noteq> NaN \<and> (\<forall>l. k < l \<and> l < i \<longrightarrow> ?cell (?idx ! l) = NaN)
                 \<and> ?c' ! i = ?cell (?idx ! k) \<and> ?c' ! i \<noteq> NaN"
    if "\<exists>k<i. ?cell (?idx ! k) \<noteq> NaN"
  proof -
    from that assms(3) have "\<exists>k<i. ?c ! k \<noteq> NaN" by auto
    from latest_before [of i "\<lambda>k. ?c ! k \<noteq> NaN", OF this]
    obtain k where k: "k < i" "?c ! k \<noteq> NaN" "\<forall>l. k < l \<and> l < i \<longrightarrow> ?c ! l = NaN"
      by auto
    from k(3) ci have "\<forall>l. k < l \<and> l \<le> i \<longrightarrow> ?c ! l = NaN"
      by (auto simp add: le_less)
    with i k(1,2) have "?c' ! i = ?c ! k" by (rule ffill_from_prior)
    with k assms(3) show ?thesis by auto
  qed
  have none: "?c' ! i = NaN" if "\<forall>k<i. ?cell (?idx ! k) = NaN"
  proof -
    from that assms(3) ci have "\<forall>l\<le>i. ?c ! l = NaN" by (auto simp add: le_less)
    with i show ?thesis by (rule ffill_from_no_prior)
  qed
  have keep: "\<forall>l<length ?idx. ?cell (?idx ! l) \<noteq> NaN \<longrightarrow> ?c' ! l = ?cell (?idx ! l)"
    by (simp add: ffill_from_keeps)
  from col len prior none keep show ?thesis by blast
qed

theorem forward_fill_witness:
  "yearly_collect demo_env demo_now [demo_C, demo_D] ! 1
     = (of_ascii ''D Delta'', [((2025, 12, 5), Fin 30), ((2025, 12, 9), Fin 33)])
   \<and> index (yearly_combined (yearly_collect demo_env demo_now [demo_C, demo_D]))
     = [(2025, 11, 28), (2025, 12, 5), (2025, 12, 8), (2025, 12, 9)]
   \<and> snd (columns (yearly_combined (yearly_collect demo_env demo_now [demo_C, demo_D])) ! 1) ! 2 = Fin 30
   \<and> snd (columns (yearly_combined (yearly_collect demo_env demo_now [demo_C, demo_D])) ! 1) ! 0 = NaN"
proof -
  let ?d = "yearly_collect demo_env demo_now [demo_C, demo_D]"
  let ?S = "[((2025, 12, 5), Fin 30), ((2025 :: nat, 12 :: nat, 9 :: nat), Fin 33)]"
  let ?cell = "cell_at (map fst ?S) (map snd ?S)"
  have d: "?d = [(of_ascii ''C Gamma'', [((2025, 11, 28), Fin 20), ((2025, 12, 5), Fin 21),
                                          ((2025, 12, 8), Fin 22), ((2025, 12, 9), Fin 25)]),
                 (of_ascii ''D Delta'', ?S)]"
    by code_simp
  have idx: "index (yearly_combined ?d) = [(2025, 11, 28), (2025, 12, 5), (2025, 12, 8), (2025, 12, 9)]"
    by code_simp
  have j: "1 < length ?d" and dj: "?d ! 1 = (of_ascii ''D Delta'', ?S)"
    by (simp_all add: d)
  have i2: "2 < length (index (yearly_combined ?d))" and i0: "0 < length (index (yearly_combined ?d))"
    by (simp_all add: idx)
  have c0: "?cell (2025, 11, 28) = NaN"
    by code_simp
  have c1: "?cell (2025, 12, 5) = Fin 30"
    by code_simp
  have c2: "?cell (2025, 12, 8) = NaN"
    by code_simp
  have m2: "?cell (index (yearly_combined ?d) ! 2) = NaN" and m0: "?cell (index (yearly_combined ?d) ! 0) = NaN"
    using c0 c2 by (simp_all add: idx)
  from forward_fill [OF j dj i2 m2] obtain c' where
    c': "columns (yearly_combined ?d) ! 1 = (of_ascii ''D Delta'', c')"
    and prior: "(\<exists>k<2. ?cell (index (yearly_combined ?d) ! k) \<noteq> NaN) \<longrightarrow>
          (\<exists>k<2. ?cell (index (yearly_combined ?d) ! k) \<noteq> NaN
             \<and> c' ! 2 = ?cell (index (yearly_combined ?d) ! k))"
    by blast
  have "\<exists>k<2. ?cell (index (yearly_combined ?d) ! k) \<noteq> NaN"
    using c1 by (intro exI [of _ 1]) (simp add: idx)
  with prior obtain k where k: "k < 2" "?cell (index (yearly_combined ?d) ! k) \<noteq> NaN"
    "c' ! 2 = ?cell (index (yearly_combined ?d) ! k)"
    by blast
  from k(1) have "k = 0 \<or> k = 1" by auto
  with k(2,3) c0 c1 have two: "c' ! 2 = Fin 30"
    by (auto simp add: idx)
  from forward_fill [OF j dj i0 m0] obtain c'' where
    c'': "columns (yearly_combined ?d) ! 1 = (of_ascii ''D Delta'', c'')"
    and none: "(\<forall>k<0. ?cell (index (yearly_combined ?d) ! k) = NaN) \<longrightarrow> c'' ! 0 = NaN"
    by blast
  from none have zero: "c'' ! 0 = NaN" by simp
  from c' c'' have "c'' = c'" by simp
  with two zero c' dj idx show ?thesis by simp
qed

section \<open>Weekly points and merge\<close>

subsection \<open>Cells\<close>

lemma reindex_cell_at: "reindex idx vals new_idx = map (cell_at idx vals) new_idx"
  by (simp add: reindex_def cell_at_def)

lemma cell_at_absent: "k \<notin> set idx \<Longrightarrow> cell_at idx vals k = NaN"
proof -
  assume "k \<notin> set idx"
  then have "k \<notin> fst ` set (zip idx vals)"
    by (auto dest: set_zip_leftD)
  then have "map_of (zip idx vals) k = None"
    by (simp add: map_of_eq_None_iff)
  then show ?thesis by (simp add: cell_at_def)
qed

lemma cell_at_reindex:
  assumes "set idx \<subseteq> set idx'"
  shows "cell_at idx' (reindex idx vals idx') = cell_at idx vals"
proof
  fix k
  show "cell_at idx' (reindex idx vals idx') k = cell_at idx vals k"
  proof (cases "k \<in> set idx'")
    case True
    then show ?thesis
      by (simp add: reindex_cell_at cell_at_def [of idx'] map_of_zip_map)
  next
    case False
    with assms have "k \<notin> set idx" by auto
    with False show ?thesis by (simp add: cell_at_absent)
  qed
qed

lemma cell_at_nth:
  assumes "distinct idx" and "length vals = length idx" and "i < length idx"
  shows "cell_at idx vals (idx ! i) = vals ! i"
  using assms by (simp add: cell_at_def map_of_zip_nth)

lemma cell_at_series:
  "cell_at (map fst S) (map snd S) k = (case map_of S k of Some v \<Rightarrow> v | None \<Rightarrow> NaN)"
  by (simp add: cell_at_def zip_map_fst_snd)

lemma cell_at_permute:
  assumes "distinct idx" and "length vals = length idx"
    and "distinct ps" and "set ps = {0..<length idx}"
  shows "cell_at (map (nth idx) ps) (map (nth vals) ps) = cell_at idx vals"
proof -
  let ?zs = "zip (map (nth idx) ps) (map (nth vals) ps)"
  have zs: "?zs = map (\<lambda>p. (idx ! p, vals ! p)) ps"
    by (simp add: zip_map_map zip_same_conv_map)
  have "inj_on (nth idx) (set ps)"
    using assms(1,4) by (auto intro: inj_on_nth)
  with assms(3) have d1: "distinct (map fst ?zs)"
    by (simp add: zs distinct_map comp_def)
  have d2: "distinct (map fst (zip idx vals))"
    using assms(1,2) by simp
  have "set ?zs = set (zip idx vals)"
    using assms(2,4) by (auto simp add: zs set_zip)
  with d1 d2 have "map_of ?zs = map_of (zip idx vals)"
    by (simp add: map_of_inject_set)
  then show ?thesis by (simp add: cell_at_def fun_eq_iff)
qed

subsection \<open>Holding series\<close>

lemma frame_holds_empty: "frame_holds empty_frame []"
  by (simp add: frame_holds_def empty_frame_def)

lemma frame_holds_empty_iff:
  assumes "frame_holds t P"
  shows "frame_empty t \<longleftrightarrow> P = []"
proof
  assume e: "frame_empty t"
  show "P = []"
  proof (rule ccontr)
    assume "P \<noteq> []"
    then obtain nS P' where P: "P = nS # P'" by (cases P) auto
    with assms have ne: "snd nS \<noteq> []" and sub: "fst ` set (snd nS) \<subseteq> set (index t)"
      and cols: "columns t \<noteq> []"
      by (auto simp add: frame_holds_def list_all2_Cons2)
    from ne sub have "index t \<noteq> []" by (cases "snd nS") auto
    with cols e show False
      by (simp add: frame_empty_def)
  qed
next
  assume "P = []"
  with assms show "frame_empty t"
    by (simp add: frame_holds_def frame_empty_def)
qed

lemma frame_holds_first:
  assumes "S \<noteq> []" and "distinct (map fst S)"
  shows "frame_holds (frame_of_series cn S) [(cn, S)]"
  using assms by (simp add: frame_holds_def frame_of_series_def)

lemma frame_holds_names: "frame_holds t P \<Longrightarrow> map fst (columns t) = map fst P"
proof -
  assume "frame_holds t P"
  then have "list_all2 (\<lambda>nc nS. fst nc = fst nS) (columns t) P"
    by (auto simp add: frame_holds_def elim: list_all2_mono)
  then show ?thesis
    by (simp add: list_all2_conv_all_nth list_eq_iff_nth_eq)
qed

lemma frame_holds_join:
  assumes h: "frame_holds t P" and S: "S \<noteq> []" "distinct (map fst S)"
    and cn: "cn \<notin> set (map fst P)"
  shows "\<exists>t'. join_outer t cn S = Inr t' \<and> frame_holds t' (P @ [(cn, S)])"
proof -
  let ?idx = "sort (remdups (index t @ map fst S))"
  let ?t' = "\<lparr> index = ?idx,
               columns = map (\<lambda>(n, c). (n, reindex (index t) c ?idx)) (columns t)
                         @ [(cn, reindex (map fst S) (map snd S) ?idx)] \<rparr>"
  from h cn have "cn \<notin> set (map fst (columns t))"
    by (simp add: frame_holds_names)
  then have j: "join_outer t cn S = Inr ?t'"
    by (simp add: join_outer_def Let_def)
  have sub1: "set (index t) \<subseteq> set ?idx" and sub2: "set (map fst S) \<subseteq> set ?idx"
    by auto
  have lenr: "length (reindex i0 c0 ?idx) = length ?idx" for i0 :: "'a list" and c0
    by (simp add: reindex_def)
  from h have "list_all2 (\<lambda>nc nS. fst nc = fst nS \<and> length (snd nc) = length (index t)
                    \<and> cell_at (index t) (snd nc) = cell_at (map fst (snd nS)) (map snd (snd nS)))
         (columns t) P"
    by (simp add: frame_holds_def)
  then have "list_all2 (\<lambda>nc nS. fst (case nc of (n, c) \<Rightarrow> (n, reindex (index t) c ?idx)) = fst nS
                 \<and> length (snd (case nc of (n, c) \<Rightarrow> (n, reindex (index t) c ?idx))) = length ?idx
                 \<and> cell_at ?idx (snd (case nc of (n, c) \<Rightarrow> (n, reindex (index t) c ?idx)))
                     = cell_at (map fst (snd nS)) (map snd (snd nS)))
               (columns t) P"
  proof (rule list_all2_mono)
    fix nc nS
    assume a: "fst nc = fst nS \<and> length (snd nc) = length (index t)
              \<and> cell_at (index t) (snd nc) = cell_at (map fst (snd nS)) (map snd (snd nS))"
    obtain n c where nc: "nc = (n, c)" by (cases nc) auto
    from a nc have "cell_at ?idx (reindex (index t) c ?idx) = cell_at (map fst (snd nS)) (map snd (snd nS))"
      using cell_at_reindex [OF sub1, of c] by simp
    with a nc lenr [of "index t" c]
    show "fst (case nc of (n, c) \<Rightarrow> (n, reindex (index t) c ?idx)) = fst nS
        \<and> length (snd (case nc of (n, c) \<Rightarrow> (n, reindex (index t) c ?idx))) = length ?idx
        \<and> cell_at ?idx (snd (case nc of (n, c) \<Rightarrow> (n, reindex (index t) c ?idx)))
            = cell_at (map fst (snd nS)) (map snd (snd nS))"
      by simp
  qed
  then have old: "list_all2 (\<lambda>nc nS. fst nc = fst nS \<and> length (snd nc) = length ?idx
                 \<and> cell_at ?idx (snd nc) = cell_at (map fst (snd nS)) (map snd (snd nS)))
               (map (\<lambda>(n, c). (n, reindex (index t) c ?idx)) (columns t)) P"
    by (simp add: list_all2_map1)
  have new: "length (reindex (map fst S) (map snd S) ?idx) = length ?idx
     \<and> cell_at ?idx (reindex (map fst S) (map snd S) ?idx) = cell_at (map fst S) (map snd S)"
    using cell_at_reindex [OF sub2] lenr by blast
  from h have un: "set (index t) = \<Union> ((\<lambda>nS. fst ` set (snd nS)) ` set P)"
    and al: "list_all (\<lambda>nS. snd nS \<noteq> [] \<and> distinct (map fst (snd nS))) P"
    by (simp_all add: frame_holds_def)
  have "frame_holds ?t' (P @ [(cn, S)])"
    unfolding frame_holds_def
  proof (intro conjI)
    show "distinct (index ?t')" by simp
    show "set (index ?t') = \<Union> ((\<lambda>nS. fst ` set (snd nS)) ` set (P @ [(cn, S)]))"
      using un by auto
    show "list_all (\<lambda>nS. snd nS \<noteq> [] \<and> distinct (map fst (snd nS))) (P @ [(cn, S)])"
      using al S by simp
    show "list_all2 (\<lambda>nc nS. fst nc = fst nS \<and> length (snd nc) = length (index ?t')
                      \<and> cell_at (index ?t') (snd nc) = cell_at (map fst (snd nS)) (map snd (snd nS)))
           (columns ?t') (P @ [(cn, S)])"
      using old new by (simp add: list_all2_appendI)
  qed
  with j show ?thesis by blast
qed

lemma frame_holds_sort_index:
  assumes "frame_holds t P"
  shows "frame_holds (sort_index t) P"
proof -
  let ?idx = "index t"
  let ?ps = "sort_key (nth ?idx) [0..<length ?idx]"
  have ps: "distinct ?ps" "set ?ps = {0..<length ?idx}" "length ?ps = length ?idx"
    by simp_all
  have idx: "index (sort_index t) = map (nth ?idx) ?ps"
    by (simp add: sort_index_def take_rows_def)
  have idx': "index (sort_index t) = sort ?idx"
    by (rule index_sort_index)
  have cols: "columns (sort_index t) = map (\<lambda>(n, c). (n, map (nth c) ?ps)) (columns t)"
    by (simp add: sort_index_def take_rows_def)
  from assms have d: "distinct ?idx"
    and un: "set ?idx = \<Union> ((\<lambda>nS. fst ` set (snd nS)) ` set P)"
    and al: "list_all (\<lambda>nS. snd nS \<noteq> [] \<and> distinct (map fst (snd nS))) P"
    and l2: "list_all2 (\<lambda>nc nS. fst nc = fst nS \<and> length (snd nc) = length ?idx
                    \<and> cell_at ?idx (snd nc) = cell_at (map fst (snd nS)) (map snd (snd nS)))
         (columns t) P"
    by (simp_all add: frame_holds_def)
  from l2 have "list_all2 (\<lambda>nc nS. fst (case nc of (n, c) \<Rightarrow> (n, map (nth c) ?ps)) = fst nS
                 \<and> length (snd (case nc of (n, c) \<Rightarrow> (n, map (nth c) ?ps))) = length (map (nth ?idx) ?ps)
                 \<and> cell_at (map (nth ?idx) ?ps) (snd (case nc of (n, c) \<Rightarrow> (n, map (nth c) ?ps)))
                     = cell_at (map fst (snd nS)) (map snd (snd nS)))
               (columns t) P"
  proof (rule list_all2_mono)
    fix nc nS
    assume a: "fst nc = fst nS \<and> length (snd nc) = length ?idx
              \<and> cell_at ?idx (snd nc) = cell_at (map fst (snd nS)) (map snd (snd nS))"
    obtain n c where nc: "nc = (n, c)" by (cases nc) auto
    from a nc have "length c = length ?idx" by simp
    with d ps have "cell_at (map (nth ?idx) ?ps) (map (nth c) ?ps) = cell_at ?idx c"
      by (intro cell_at_permute)
    with a nc
    show "fst (case nc of (n, c) \<Rightarrow> (n, map (nth c) ?ps)) = fst nS
        \<and> length (snd (case nc of (n, c) \<Rightarrow> (n, map (nth c) ?ps))) = length (map (nth ?idx) ?ps)
        \<and> cell_at (map (nth ?idx) ?ps) (snd (case nc of (n, c) \<Rightarrow> (n, map (nth c) ?ps)))
            = cell_at (map fst (snd nS)) (map snd (snd nS))"
      by simp
  qed
  then have l2': "list_all2 (\<lambda>nc nS. fst nc = fst nS \<and> length (snd nc) = length (index (sort_index t))
                    \<and> cell_at (index (sort_index t)) (snd nc) = cell_at (map fst (snd nS)) (map snd (snd nS)))
         (columns (sort_index t)) P"
    by (simp add: idx cols list_all2_map1)
  from d un have "distinct (index (sort_index t))"
    and "set (index (sort_index t)) = \<Union> ((\<lambda>nS. fst ` set (snd nS)) ` set P)"
    by (simp_all add: idx')
  with al l2' show ?thesis
    by (simp add: frame_holds_def)
qed

subsection \<open>The weekly series\<close>

lemma weekly_series_points:
  assumes "df \<noteq> []"
  shows "weekly_series df
     = concat (map (\<lambda>b. [((bdate b, 9, 0), pct_return (Fin (Open b)) (Fin (Open (hd df)))),
                          ((bdate b, 13, 30), pct_return (Fin (Close b)) (Fin (Open (hd df))))]) df)"
proof -
  from assms obtain b rest where df: "df = b # rest" by (cases df) auto
  have "map (\<lambda>(t, price). (t, pct_return price s)) (concat (map bar_points xs))
      = concat (map (\<lambda>b. [((bdate b, 9, 0), pct_return (Fin (Open b)) s),
                            ((bdate b, 13, 30), pct_return (Fin (Close b)) s)]) xs)" for s xs
    by (induction xs) (simp_all add: bar_points_def)
  from this [of "Fin (Open b)" df] show ?thesis
    by (simp add: weekly_series_def df bar_points_def Let_def)
qed

lemma weekly_series_keys:
  "map fst (weekly_series df) = concat (map (\<lambda>b. [(bdate b, 9, 0), (bdate b, 13, 30)]) df)"
proof (cases "df = []")
  case True
  then show ?thesis by (simp add: weekly_series_def)
next
  case False
  then show ?thesis
    by (simp add: weekly_series_points map_concat comp_def)
qed

lemma weekly_keys_dates:
  "k \<in> set (concat (map (\<lambda>b. [(bdate b, 9 :: nat, 0 :: nat), (bdate b, 13, 30)]) df))
   \<Longrightarrow> fst k \<in> bdate ` set df"
  by (induction df) auto

lemma weekly_keys_distinct:
  "distinct (map bdate df)
   \<Longrightarrow> distinct (concat (map (\<lambda>b. [(bdate b, 9 :: nat, 0 :: nat), (bdate b, 13, 30)]) df))"
proof (induction df)
  case Nil
  then show ?case by simp
next
  case (Cons b df)
  then have "bdate b \<notin> bdate ` set df" by simp
  with weekly_keys_dates [of _ df] have
    "(bdate b, 9, 0) \<notin> set (concat (map (\<lambda>b. [(bdate b, 9 :: nat, 0 :: nat), (bdate b, 13, 30)]) df))"
    "(bdate b, 13, 30) \<notin> set (concat (map (\<lambda>b. [(bdate b, 9 :: nat, 0 :: nat), (bdate b, 13, 30)]) df))"
    by force+
  with Cons show ?case by simp
qed

lemma weekly_series_distinct: "distinct (map bdate df) \<Longrightarrow> distinct (map fst (weekly_series df))"
  by (simp add: weekly_series_keys weekly_keys_distinct)

lemma weekly_series_nonempty: "df \<noteq> [] \<Longrightarrow> weekly_series df \<noteq> []"
  by (cases df) (simp_all add: weekly_series_points)

subsection \<open>The weekly loop\<close>

lemma weekly_step_holds:
  assumes h: "frame_holds t P"
    and cn: "ticker_column tk \<notin> set (map fst P)"
    and dd: "\<forall>d. history_from e (fst (snd tk)) start = Inr d \<longrightarrow> distinct (map bdate d)"
  shows "frame_holds (weekly_step e start tk t) (P @ weekly_contrib e start tk)"
proof -
  obtain code symbol name where tk: "tk = (code, symbol, name)" by (cases tk) auto
  show ?thesis
  proof (cases "history_from e symbol start")
    case (Inl x)
    with h tk show ?thesis
      by (simp add: weekly_step_def weekly_try_def weekly_contrib_def)
  next
    case (Inr df)
    show ?thesis
    proof (cases "df = []")
      case True
      with Inr h tk show ?thesis
        by (simp add: weekly_step_def weekly_try_def weekly_contrib_def)
    next
      case False
      let ?cn = "column_name code name"
      let ?S = "weekly_series df"
      from False have S1: "?S \<noteq> []" by (rule weekly_series_nonempty)
      from dd Inr tk have "distinct (map bdate df)" by simp
      then have S2: "distinct (map fst ?S)" by (rule weekly_series_distinct)
      have c: "weekly_contrib e start tk = [(?cn, ?S)]"
        using Inr False tk by (simp add: weekly_contrib_def ticker_column_def)
      show ?thesis
      proof (cases "frame_empty t")
        case True
        with h have "P = []" by (simp add: frame_holds_empty_iff)
        moreover have "weekly_step e start tk t = frame_of_series ?cn ?S"
          using Inr False True tk by (simp add: weekly_step_def weekly_try_def)
        ultimately show ?thesis
          using frame_holds_first [OF S1 S2, of ?cn] c by simp
      next
        case ne: False
        from cn tk have "?cn \<notin> set (map fst P)" by (simp add: ticker_column_def)
        with frame_holds_join [OF h S1 S2] obtain t' where
          t': "join_outer t ?cn ?S = Inr t'" "frame_holds t' (P @ [(?cn, ?S)])"
          by blast
        have "weekly_step e start tk t = t'"
          using Inr False ne tk t'(1) by (simp add: weekly_step_def weekly_try_def)
        with t'(2) c show ?thesis by simp
      qed
    qed
  qed
qed

lemma weekly_contrib_cases:
  "weekly_contrib e start tk = []
   \<or> (\<exists>df. history_from e (fst (snd tk)) start = Inr df \<and> df \<noteq> []
           \<and> weekly_contrib e start tk = [(ticker_column tk, weekly_series df)])"
  by (auto simp add: weekly_contrib_def split: sum.splits)

lemma weekly_step_repeat:
  assumes h: "frame_holds t P" and sub: "set (weekly_contrib e start tk) \<subseteq> set P"
  shows "weekly_step e start tk t = t"
proof -
  obtain code symbol name where tk: "tk = (code, symbol, name)" by (cases tk) auto
  from weekly_contrib_cases [of e start tk] show ?thesis
  proof
    assume "weekly_contrib e start tk = []"
    then show ?thesis
      by (auto simp add: weekly_contrib_def weekly_step_def weekly_try_def tk
          split: sum.splits if_splits)
  next
    assume "\<exists>df. history_from e (fst (snd tk)) start = Inr df \<and> df \<noteq> []
           \<and> weekly_contrib e start tk = [(ticker_column tk, weekly_series df)]"
    then obtain df where df: "history_from e symbol start = Inr df" "df \<noteq> []"
      and c: "weekly_contrib e start tk = [(ticker_column tk, weekly_series df)]"
      by (auto simp add: tk)
    from c sub have mem: "(ticker_column tk, weekly_series df) \<in> set P" by simp
    then have "P \<noteq> []" by auto
    with h have ne: "\<not> frame_empty t" by (simp add: frame_holds_empty_iff)
    from mem have "ticker_column tk \<in> set (map fst P)" by force
    with h have "column_name code name \<in> set (map fst (columns t))"
      by (simp add: frame_holds_names tk ticker_column_def)
    then have "join_outer t (column_name code name) (weekly_series df) = Inl ValueError"
      by (simp add: join_outer_def)
    with df ne show ?thesis
      by (simp add: weekly_step_def weekly_try_def tk)
  qed
qed

lemma weekly_fold_holds:
  assumes "frame_holds t P"
    and "set (map fst P) \<subseteq> ticker_column ` set seen"
    and "\<forall>tk\<in>set seen. set (weekly_contrib e start tk) \<subseteq> set P"
    and "inj_on ticker_column (set seen \<union> set tks)"
    and "\<forall>tk\<in>set tks. \<forall>d. history_from e (fst (snd tk)) start = Inr d \<longrightarrow> distinct (map bdate d)"
  shows "\<exists>P'. frame_holds (fold (weekly_step e start) tks t) P'
           \<and> set P' = set P \<union> set (weekly_contribs e start tks)"
  using assms
proof (induction tks arbitrary: t P seen)
  case Nil
  then show ?case by (auto simp add: weekly_contribs_def)
next
  case (Cons tk tks)
  have rest: "\<forall>tk\<in>set tks. \<forall>d. history_from e (fst (snd tk)) start = Inr d \<longrightarrow> distinct (map bdate d)"
    using Cons.prems(5) by simp
  show ?case
  proof (cases "tk \<in> set seen")
    case True
    with Cons.prems(3) have sub: "set (weekly_contrib e start tk) \<subseteq> set P" by blast
    with Cons.prems(1) have same: "weekly_step e start tk t = t" by (rule weekly_step_repeat)
    from True Cons.prems(4) have inj: "inj_on ticker_column (set seen \<union> set tks)"
      by (auto intro: inj_on_subset)
    from Cons.IH [OF Cons.prems(1,2,3) inj rest] obtain P' where
      "frame_holds (fold (weekly_step e start) tks t) P'"
      "set P' = set P \<union> set (weekly_contribs e start tks)"
      by blast
    with same sub show ?thesis
      by (auto simp add: weekly_contribs_def)
  next
    case False
    with Cons.prems(4) have "ticker_column tk \<notin> ticker_column ` set seen"
      by (auto simp add: inj_on_def)
    with Cons.prems(2) have cn: "ticker_column tk \<notin> set (map fst P)" by blast
    from Cons.prems(5) have dd: "\<forall>d. history_from e (fst (snd tk)) start = Inr d \<longrightarrow> distinct (map bdate d)"
      by simp
    have h: "frame_holds (weekly_step e start tk t) (P @ weekly_contrib e start tk)"
      using Cons.prems(1) cn dd by (rule weekly_step_holds)
    have names: "set (map fst (P @ weekly_contrib e start tk)) \<subseteq> ticker_column ` set (tk # seen)"
      using Cons.prems(2) weekly_contrib_cases [of e start tk] by auto
    have subs: "\<forall>x\<in>set (tk # seen). set (weekly_contrib e start x) \<subseteq> set (P @ weekly_contrib e start tk)"
      using Cons.prems(3) by auto
    have inj: "inj_on ticker_column (set (tk # seen) \<union> set tks)"
      using Cons.prems(4) by (auto intro: inj_on_subset)
    from Cons.IH [OF h names subs inj rest] obtain P' where
      "frame_holds (fold (weekly_step e start) tks (weekly_step e start tk t)) P'"
      "set P' = set (P @ weekly_contrib e start tk) \<union> set (weekly_contribs e start tks)"
      by blast
    then show ?thesis
      by (auto simp add: weekly_contribs_def)
  qed
qed

lemma weekly_frame_holds:
  assumes "inj_on ticker_column (set tks)"
    and "\<forall>tk\<in>set tks. \<forall>d. history_from e (fst (snd tk)) (week_start now) = Inr d
           \<longrightarrow> distinct (map bdate d)"
  shows "\<exists>P. frame_holds (weekly_frame e now tks) P
           \<and> set P = set (weekly_contribs e (week_start now) tks)"
proof -
  have "\<exists>P'. frame_holds (fold (weekly_step e (week_start now)) tks empty_frame) P'
           \<and> set P' = set [] \<union> set (weekly_contribs e (week_start now) tks)"
    using frame_holds_empty
  proof (rule weekly_fold_holds [where seen = "[]"])
    show "set (map fst []) \<subseteq> ticker_column ` set []" by simp
    show "\<forall>tk\<in>set []. set (weekly_contrib e (week_start now) tk) \<subseteq> set []" by simp
    show "inj_on ticker_column (set [] \<union> set tks)" using assms(1) by simp
    show "\<forall>tk\<in>set tks. \<forall>d. history_from e (fst (snd tk)) (week_start now) = Inr d
           \<longrightarrow> distinct (map bdate d)" by (rule assms(2))
  qed
  then obtain P where h: "frame_holds (weekly_table e (week_start now) tks) P"
    and P: "set P = set (weekly_contribs e (week_start now) tks)"
    by (auto simp add: weekly_table_def)
  show ?thesis
  proof (cases "frame_empty (weekly_table e (week_start now) tks)")
    case True
    with h P show ?thesis by (auto simp add: weekly_frame_def)
  next
    case False
    with frame_holds_sort_index [OF h] P show ?thesis by (auto simp add: weekly_frame_def)
  qed
qed

lemma frame_holds_column:
  assumes "frame_holds t P" and "(cn, S) \<in> set P"
  shows "fst ` set S \<subseteq> set (index t)
     \<and> (\<exists>c. (cn, c) \<in> set (columns t) \<and> length c = length (index t)
           \<and> (\<forall>i<length c. c ! i = (case map_of S (index t ! i) of Some v \<Rightarrow> v | None \<Rightarrow> NaN)))"
proof -
  from assms have d: "distinct (index t)"
    and un: "set (index t) = \<Union> ((\<lambda>nS. fst ` set (snd nS)) ` set P)"
    and l2: "list_all2 (\<lambda>nc nS. fst nc = fst nS \<and> length (snd nc) = length (index t)
                    \<and> cell_at (index t) (snd nc) = cell_at (map fst (snd nS)) (map snd (snd nS)))
         (columns t) P"
    by (simp_all add: frame_holds_def)
  from un assms(2) have sub: "fst ` set S \<subseteq> set (index t)" by force
  from assms(2) obtain j where j: "j < length P" "P ! j = (cn, S)"
    by (auto simp add: in_set_conv_nth)
  with l2 have lj: "j < length (columns t)"
    and cj: "fst (columns t ! j) = cn" "length (snd (columns t ! j)) = length (index t)"
      "cell_at (index t) (snd (columns t ! j)) = cell_at (map fst S) (map snd S)"
    by (auto simp add: list_all2_conv_all_nth)
  let ?c = "snd (columns t ! j)"
  from lj cj(1) have mem: "(cn, ?c) \<in> set (columns t)"
    by (metis nth_mem prod.collapse)
  have "?c ! i = (case map_of S (index t ! i) of Some v \<Rightarrow> v | None \<Rightarrow> NaN)" if "i < length ?c" for i
  proof -
    from that cj(2) have i: "i < length (index t)" by simp
    with d cj(2) have "?c ! i = cell_at (index t) ?c (index t ! i)"
      by (simp add: cell_at_nth)
    also have "\<dots> = cell_at (map fst S) (map snd S) (index t ! i)"
      by (simp add: cj(3))
    finally show ?thesis by (simp add: cell_at_series)
  qed
  with sub mem cj(2) show ?thesis by blast
qed

text \<open>
  C7. Take a ticker list in which tickers with the same column name are the same ticker,
  and a market that returns at most one bar per security and day. For every ticker whose
  fetch returns bars: its series has exactly two points per bar, in bar order, the open at
  09:00 and the close at 13:30 of the bar's day, each as a return on the first open; the
  index of the weekly table is the union of the timestamps of all the series; and the
  ticker's column has, in every row, the security's own return at the row's timestamp when
  it has a point there and a null cell when it has none.
\<close>

theorem weekly_points_and_merge:
  assumes "inj_on ticker_column (set tks)"
    and "\<forall>tk\<in>set tks. \<forall>d. history_from e (fst (snd tk)) (week_start now) = Inr d
           \<longrightarrow> distinct (map bdate d)"
    and "(code, symbol, name) \<in> set tks"
    and "history_from e symbol (week_start now) = Inr df" and "df \<noteq> []"
  shows "weekly_series df
       = concat (map (\<lambda>b. [((bdate b, 9, 0), pct_return (Fin (Open b)) (Fin (Open (hd df)))),
                            ((bdate b, 13, 30), pct_return (Fin (Close b)) (Fin (Open (hd df))))]) df)
     \<and> set (index (weekly_frame e now tks))
         = \<Union> ((\<lambda>nS. fst ` set (snd nS)) ` set (weekly_contribs e (week_start now) tks))
     \<and> (column_name code name, weekly_series df) \<in> set (weekly_contribs e (week_start now) tks)
     \<and> (\<exists>c. (column_name code name, c) \<in> set (columns (weekly_frame e now tks))
           \<and> length c = length (index (weekly_frame e now tks))
           \<and> (\<forall>i<length c. c ! i = (case map_of (weekly_series df) (index (weekly_frame e now tks) ! i) of
                                       Some v \<Rightarrow> v | None \<Rightarrow> NaN)))"
proof -
  from weekly_frame_holds [OF assms(1,2)] obtain P where
    h: "frame_holds (weekly_frame e now tks) P"
    and P: "set P = set (weekly_contribs e (week_start now) tks)"
    by blast
  have "weekly_contrib e (week_start now) (code, symbol, name) = [(column_name code name, weekly_series df)]"
    using assms(4,5) by (simp add: weekly_contrib_def ticker_column_def)
  with assms(3) have mem: "(column_name code name, weekly_series df)
      \<in> set (weekly_contribs e (week_start now) tks)"
    by (force simp add: weekly_contribs_def)
  with P have memP: "(column_name code name, weekly_series df) \<in> set P" by simp
  from h P have un: "set (index (weekly_frame e now tks))
         = \<Union> ((\<lambda>nS. fst ` set (snd nS)) ` set (weekly_contribs e (week_start now) tks))"
    by (simp add: frame_holds_def)
  from frame_holds_column [OF h memP] weekly_series_points [OF assms(5)] un mem
  show ?thesis by blast
qed

theorem weekly_points_and_merge_witness:
  "weekly_series [mk_bar (2025, 12, 9) 50 40 3]
     = [(((2025, 12, 9), 9, 0), Fin 0), (((2025, 12, 9), 13, 30), Fin (- 20))]
   \<and> index (weekly_frame demo_env demo_now [demo_A, demo_B, demo_A])
     = [((2025, 12, 8), 9, 0), ((2025, 12, 8), 13, 30), ((2025, 12, 9), 9, 0), ((2025, 12, 9), 13, 30)]
   \<and> (\<exists>c. (of_ascii ''B Beta'', c) \<in> set (columns (weekly_frame demo_env demo_now [demo_A, demo_B, demo_A]))
          \<and> c ! 0 = NaN \<and> c ! 1 = NaN \<and> c ! 2 = Fin 0 \<and> c ! 3 = Fin (- 20))"
proof -
  let ?tks = "[demo_A, demo_B, demo_A]"
  let ?df = "[mk_bar (2025, 12, 9) 50 40 3]"
  let ?T = "weekly_frame demo_env demo_now ?tks"
  have a1: "inj_on ticker_column (set ?tks)"
    by (auto simp add: inj_on_def ticker_column_def demo_A_def demo_B_def column_name_def of_ascii_def)
  have a2: "\<forall>tk\<in>set ?tks. \<forall>d. history_from demo_env (fst (snd tk)) (week_start demo_now) = Inr d
           \<longrightarrow> distinct (map bdate d)"
    by (auto simp add: demo_A_def demo_B_def demo_env_def demo_bars_def of_ascii_def mk_bar_def)
  have a3: "(of_ascii ''B'', of_ascii ''B.TW'', of_ascii ''Beta'') \<in> set ?tks"
    by (simp add: demo_B_def)
  have a4: "history_from demo_env (of_ascii ''B.TW'') (week_start demo_now) = Inr ?df"
    by (simp add: demo_env_def demo_bars_def of_ascii_def)
  have a5: "?df \<noteq> []" by simp
  have S: "weekly_series ?df = [(((2025, 12, 9), 9, 0), Fin 0), (((2025, 12, 9), 13, 30), Fin (- 20))]"
    by code_simp
  have idx: "index ?T
     = [((2025, 12, 8), 9, 0), ((2025, 12, 8), 13, 30), ((2025, 12, 9), 9, 0), ((2025, 12, 9), 13, 30)]"
    by code_simp
  from weekly_points_and_merge [OF a1 a2 a3 a4 a5] obtain c where
    c: "(column_name (of_ascii ''B'') (of_ascii ''Beta''), c) \<in> set (columns ?T)"
    and len: "length c = length (index ?T)"
    and cells: "\<forall>i<length c. c ! i = (case map_of (weekly_series ?df) (index ?T ! i) of
                                       Some v \<Rightarrow> v | None \<Rightarrow> NaN)"
    by blast
  from len have l4: "length c = 4" by (simp add: idx)
  from cells l4 have "c ! 0 = NaN" "c ! 1 = NaN" "c ! 2 = Fin 0" "c ! 3 = Fin (- 20)"
    by (simp_all add: idx S)
  moreover from c have "(of_ascii ''B Beta'', c) \<in> set (columns ?T)"
    by (simp add: column_name_def of_ascii_def)
  ultimately show ?thesis using S idx by blast
qed

end
